theory Spec2Isabelle
  imports Complex_Main "HOL-Library.Log_Nat" "HOL-Library.Sublist"
begin

section \<open>Python floats\<close>

text \<open>
  Python's \<open>float\<close> is IEEE-754 binary64.  A finite float is modelled by the rational
  number it denotes, and every arithmetic operation rounds the exact result to the
  nearest binary64 value, ties to even (\<open>fl\<close>).  Results at or beyond \<open>2^1024\<close>
  (infinities, OverflowError) are outside the model; none of the quantities below
  gets near that range.
\<close>

definition pow2 :: "int \<Rightarrow> rat" where
  "pow2 k = (if 0 \<le> k then 2 ^ nat k else 1 / 2 ^ nat (- k))"

definition round_half_even :: "rat \<Rightarrow> int" where
  "round_half_even x =
     (let f = \<lfloor>x\<rfloor>; d = x - of_int f
      in if d < 1 / 2 then f
         else if 1 / 2 < d then f + 1
         else if even f then f else f + 1)"

definition ilog2 :: "rat \<Rightarrow> int" where
  \<comment> \<open>\<open>\<lfloor>log\<^sub>2 x\<rfloor>\<close> for \<open>x > 0\<close>\<close>
  "ilog2 x =
     (let k = bitlen (fst (quotient_of x)) - bitlen (snd (quotient_of x))
      in if pow2 k \<le> x then k else k - 1)"

definition fl :: "rat \<Rightarrow> rat" where
  \<comment> \<open>53 significant bits; below \<open>2^-1022\<close> the spacing stays \<open>2^-1074\<close> (subnormals)\<close>
  "fl x =
     (if x = 0 then 0
      else let e = max (ilog2 \<bar>x\<bar>) (- 1022); u = pow2 (e - 52)
           in sgn x * of_int (round_half_even (\<bar>x\<bar> / u)) * u)"

definition fadd :: "rat \<Rightarrow> rat \<Rightarrow> rat" where
  "fadd x y = fl (x + y)"

definition fmul :: "rat \<Rightarrow> rat \<Rightarrow> rat" where
  "fmul x y = fl (x * y)"

definition int_truediv :: "int \<Rightarrow> int \<Rightarrow> rat" where
  \<comment> \<open>\<open>a / b\<close> on two Python ints, \<open>b \<noteq> 0\<close>: the correctly rounded quotient\<close>
  "int_truediv a b = fl (of_int a / of_int b)"

definition py_round2 :: "rat \<Rightarrow> rat" where
  \<comment> \<open>\<open>round(x, 2)\<close> on a float: the nearest two-decimal number to the exact value of
      \<open>x\<close> (ties to even), converted back to a float\<close>
  "py_round2 x = fl (of_int (round_half_even (x * 100)) / 100)"


section \<open>CircuitBreaker (stage-2.2-instagram/lambda\_function.py)\<close>

text \<open>
  \<open>datetime.utcnow()\<close> is an input of the two methods that read the clock; a datetime
  is its number of microseconds since the epoch.  \<open>total_seconds\<close> is the float
  \<open>microseconds / 10^6\<close>.
\<close>

record circuit_breaker =
  failure_threshold :: int
  timeout :: int
  failure_count :: int
  last_failure_time :: "int option"
  is_open :: bool



definition record_failure :: "int \<Rightarrow> circuit_breaker \<Rightarrow> circuit_breaker" where
  "record_failure now cb =
     (let cb1 = cb\<lparr>failure_count := failure_count cb + 1, last_failure_time := Some now\<rparr>
      in if failure_threshold cb1 \<le> failure_count cb1 then cb1\<lparr>is_open := True\<rparr> else cb1)"



text \<open>A run of consecutive failures, one clock reading per call.\<close>

fun record_failures :: "int list \<Rightarrow> circuit_breaker \<Rightarrow> circuit_breaker" where
  "record_failures [] cb = cb"
| "record_failures (t # ts) cb = record_failures ts (record_failure t cb)"


section \<open>APIKeyRotationManager (stage-2.1-google-search/key\_rotation.py)\<close>

datatype py_error =
  KeyError | ZeroDivisionError | ValueError | TypeError | UnboundLocalError | ClientError

text \<open>
  One entry of \<open>key_stats\<close>.  The key \<open>"last_error_time"\<close> is absent from a fresh entry
  and read with \<open>.get\<close>, so absent and \<open>None\<close> coincide.  Times are microseconds.
\<close>

record key_stat =
  requests :: int
  errors :: int
  last_error :: "string option"
  last_error_time :: "int option"

record rotation_manager =
  strategy :: string
  current_index :: int
  keys :: "string list"
  key_stats :: "string \<rightharpoonup> key_stat"
  rate_limit_threshold :: int

definition fresh_stat :: key_stat where
  "fresh_stat = \<lparr>requests = 0, errors = 0, last_error = None, last_error_time = None\<rparr>"

text \<open>
  \<open>__init__\<close>.  The environment is read once, here: \<open>loaded\<close> is what \<open>_load_keys\<close>
  returns and \<open>threshold\<close> is \<open>int(RATE_LIMIT_THRESHOLD)\<close>.
\<close>

definition APIKeyRotationManager_init :: "string \<Rightarrow> string list \<Rightarrow> int \<Rightarrow> rotation_manager" where
  "APIKeyRotationManager_init strat loaded threshold =
     \<lparr>strategy = strat, current_index = 0, keys = loaded,
      key_stats = map_of (map (\<lambda>k. (k, fresh_stat)) loaded),
      rate_limit_threshold = threshold\<rparr>"

definition stat_lookup :: "rotation_manager \<Rightarrow> string \<Rightarrow> py_error + key_stat" where
  \<comment> \<open>\<open>self.key_stats[k]\<close>\<close>
  "stat_lookup m k = (case key_stats m k of None \<Rightarrow> Inl KeyError | Some s \<Rightarrow> Inr s)"

definition get_round_robin_key :: "rotation_manager \<Rightarrow> py_error + string \<times> rotation_manager" where
  "get_round_robin_key m =
     (if keys m = [] then Inl ZeroDivisionError
      else Inr (keys m ! nat (current_index m mod int (length (keys m))),
                m\<lparr>current_index := current_index m + 1\<rparr>))"

fun request_counts :: "rotation_manager \<Rightarrow> string list \<Rightarrow> py_error + (string \<times> int) list" where
  "request_counts m [] = Inr []"
| "request_counts m (k # ks) =
     (case stat_lookup m k of
        Inl e \<Rightarrow> Inl e
      | Inr s \<Rightarrow> (case request_counts m ks of
                   Inl e \<Rightarrow> Inl e
                 | Inr rest \<Rightarrow> Inr ((k, requests s) # rest)))"

fun first_min :: "string \<times> int \<Rightarrow> (string \<times> int) list \<Rightarrow> string" where
  \<comment> \<open>\<open>min(..., key=...)\<close>: the first element with the smallest key\<close>
  "first_min best [] = fst best"
| "first_min best (x # xs) = first_min (if snd x < snd best then x else best) xs"

definition get_least_used_key :: "rotation_manager \<Rightarrow> py_error + string \<times> rotation_manager" where
  "get_least_used_key m =
     (case request_counts m (keys m) of
        Inl e \<Rightarrow> Inl e
      | Inr [] \<Rightarrow> Inl ValueError
      | Inr (x # xs) \<Rightarrow> Inr (first_min x xs, m))"

definition get_random_key :: "nat \<Rightarrow> rotation_manager \<Rightarrow> py_error + string \<times> rotation_manager" where
  \<comment> \<open>\<open>random.choice\<close>: \<open>rnd\<close> is the index the generator draws\<close>
  "get_random_key rnd m =
     (if keys m = [] then Inl ValueError
      else Inr (keys m ! (rnd mod length (keys m)), m))"

definition is_error_stale :: "int \<Rightarrow> key_stat \<Rightarrow> bool" where
  "is_error_stale now s =
     (case last_error s of
        None \<Rightarrow> True
      | Some e \<Rightarrow>
          if e = [] then True
          else (case last_error_time s of
                  None \<Rightarrow> True
                | Some t \<Rightarrow> 3600000000 < now - t))"

fun available_keys :: "int \<Rightarrow> rotation_manager \<Rightarrow> string list \<Rightarrow> py_error + string list" where
  "available_keys now m [] = Inr []"
| "available_keys now m (k # ks) =
     (case stat_lookup m k of
        Inl e \<Rightarrow> Inl e
      | Inr s \<Rightarrow> (case available_keys now m ks of
                   Inl e \<Rightarrow> Inl e
                 | Inr rest \<Rightarrow>
                     Inr (if last_error s \<noteq> Some ''RATE_LIMIT'' \<or> is_error_stale now s
                          then k # rest else rest)))"

fun reset_error_tracking :: "string list \<Rightarrow> rotation_manager \<Rightarrow> py_error + rotation_manager" where
  "reset_error_tracking [] m = Inr m"
| "reset_error_tracking (k # ks) m =
     (case stat_lookup m k of
        Inl e \<Rightarrow> Inl e
      | Inr s \<Rightarrow>
          reset_error_tracking ks
            (m\<lparr>key_stats := (key_stats m)(k \<mapsto> s\<lparr>last_error := None, last_error_time := None\<rparr>)\<rparr>))"

definition get_adaptive_key :: "int \<Rightarrow> rotation_manager \<Rightarrow> py_error + string \<times> rotation_manager" where
  "get_adaptive_key now m =
     (case available_keys now m (keys m) of
        Inl e \<Rightarrow> Inl e
      | Inr avail \<Rightarrow>
          if avail \<noteq> []
          then Inr (avail ! nat (current_index m mod int (length avail)),
                    m\<lparr>current_index := current_index m + 1\<rparr>)
          else (case reset_error_tracking (keys m) m of
                  Inl e \<Rightarrow> Inl e
                | Inr m' \<Rightarrow> get_round_robin_key m'))"

text \<open>
  \<open>get_next_key\<close> returns \<open>None\<close> without touching the state when no key is loaded.
  \<open>now\<close> and \<open>rnd\<close> are the clock and the random draw, read by the adaptive and the
  random strategy only.
\<close>

definition get_next_key :: "int \<Rightarrow> nat \<Rightarrow> rotation_manager \<Rightarrow> py_error + string option \<times> rotation_manager" where
  "get_next_key now rnd m =
     (if keys m = [] then Inr (None, m)
      else map_sum id (\<lambda>(k, m'). (Some k, m'))
             (if strategy m = ''round_robin'' then get_round_robin_key m
              else if strategy m = ''least_used'' then get_least_used_key m
              else if strategy m = ''random'' then get_random_key rnd m
              else if strategy m = ''adaptive'' then get_adaptive_key now m
              else get_round_robin_key m))"

definition record_request :: "string \<Rightarrow> bool \<Rightarrow> string option \<Rightarrow> int \<Rightarrow> rotation_manager \<Rightarrow> rotation_manager" where
  "record_request key success error_type now m =
     (case key_stats m key of
        None \<Rightarrow> m
      | Some s \<Rightarrow>
          (let s1 = s\<lparr>requests := requests s + 1\<rparr>;
               s2 = (if \<not> success
                     then s1\<lparr>errors := errors s1 + 1, last_error := error_type,
                             last_error_time := Some now\<rparr>
                     else s1)
           in m\<lparr>key_stats := (key_stats m)(key \<mapsto> s2)\<rparr>))"

definition error_rate :: "key_stat \<Rightarrow> rat" where
  \<comment> \<open>\<open>errors / requests * 100\<close>, evaluated only where \<open>requests\<close> is not 0\<close>
  "error_rate s = fmul (int_truediv (errors s) (requests s)) 100"

definition should_skip_key :: "string \<Rightarrow> rotation_manager \<Rightarrow> bool" where
  "should_skip_key key m =
     (case key_stats m key of
        None \<Rightarrow> False
      | Some s \<Rightarrow>
          if requests s = 0 then False
          else of_int (rate_limit_threshold m) \<le> error_rate s)"

text \<open>
  \<open>get_statistics\<close>, one row per key: requests, errors, the error rate (0 when there
  is no request) and the last error.  The row is stored under the key's first ten
  characters followed by three dots; the rate is kept as a number, its formatting
  with one decimal is not modelled.
\<close>

fun get_statistics_rows ::
  "rotation_manager \<Rightarrow> string list \<Rightarrow> (string \<rightharpoonup> int \<times> int \<times> rat \<times> string option)
     \<Rightarrow> py_error + (string \<rightharpoonup> int \<times> int \<times> rat \<times> string option)" where
  "get_statistics_rows m [] acc = Inr acc"
| "get_statistics_rows m (k # ks) acc =
     (case stat_lookup m k of
        Inl e \<Rightarrow> Inl e
      | Inr s \<Rightarrow>
          get_statistics_rows m ks
            (acc(take 10 k @ ''...'' \<mapsto>
               (requests s, errors s, (if 0 < requests s then error_rate s else 0), last_error s))))"

definition get_statistics ::
  "rotation_manager \<Rightarrow> py_error + (string \<rightharpoonup> int \<times> int \<times> rat \<times> string option)" where
  "get_statistics m = get_statistics_rows m (keys m) Map.empty"

text \<open>Sequences of calls on one manager.\<close>

fun selections :: "(int \<times> nat) list \<Rightarrow> rotation_manager \<Rightarrow> py_error + string option list \<times> rotation_manager" where
  \<comment> \<open>the results of successive \<open>get_next_key\<close> calls, one clock reading and one random
      draw per call\<close>
  "selections [] m = Inr ([], m)"
| "selections ((now, rnd) # ins) m =
     (case get_next_key now rnd m of
        Inl e \<Rightarrow> Inl e
      | Inr (k, m') \<Rightarrow>
          (case selections ins m' of
             Inl e \<Rightarrow> Inl e
           | Inr (ks, m'') \<Rightarrow> Inr (k # ks, m'')))"

fun record_requests :: "(string \<times> bool \<times> string option \<times> int) list \<Rightarrow> rotation_manager \<Rightarrow> rotation_manager" where
  "record_requests [] m = m"
| "record_requests ((key, success, error_type, now) # cs) m =
     record_requests cs (record_request key success error_type now m)"


section \<open>retry\_with\_backoff (stage-2.4-youtube/lambda\_function.py)\<close>

text \<open>
  The attempt function returns a dict or raises.  It takes no argument and is called
  once per loop iteration, so it is given by the outcome of its call in each attempt
  (\<open>func i\<close> is what the call made in iteration \<open>i\<close> does).
\<close>

datatype pyval = PNone | PBool bool | PInt int | PStr string

text \<open>A dict is the list of its items; \<open>get\<close> is \<open>d.get(key)\<close>, \<open>None\<close> for an absent key.\<close>

type_synonym result = "(string \<times> pyval) list"

definition get :: "result \<Rightarrow> string \<Rightarrow> pyval option" where
  "get d key = map_of d key"

datatype outcome = Raises | Returns result

fun truthy :: "pyval option \<Rightarrow> bool" where
  \<comment> \<open>truth value of \<open>d.get(key)\<close>; an absent key gives \<open>None\<close>\<close>
  "truthy None = False"
| "truthy (Some PNone) = False"
| "truthy (Some (PBool b)) = b"
| "truthy (Some (PInt i)) = (i \<noteq> 0)"
| "truthy (Some (PStr s)) = (s \<noteq> [])"

fun contains :: "string \<Rightarrow> string \<Rightarrow> bool" where
  \<comment> \<open>\<open>sub in s\<close> on two strings\<close>
  "contains sub [] = (sub = [])"
| "contains sub (c # cs) = (prefix sub (c # cs) \<or> contains sub cs)"

definition is_success :: "result \<Rightarrow> bool" where
  \<comment> \<open>\<open>result.get('success') or result.get('channel_id')\<close>\<close>
  "is_success r = (truthy (get r ''success'') \<or> truthy (get r ''channel_id''))"

definition error_text :: "result \<Rightarrow> py_error + string" where
  \<comment> \<open>\<open>result.get('error', '')\<close> as the right operand of \<open>in\<close>: a value that is not a
      string makes \<open>in\<close> raise TypeError\<close>
  "error_text r =
     (case get r ''error'' of
        None \<Rightarrow> Inr []
      | Some (PStr s) \<Rightarrow> Inr s
      | Some _ \<Rightarrow> Inl TypeError)"

record retry_trace =
  calls :: nat
  sleeps :: "int list"

definition sleep :: "int \<Rightarrow> retry_trace \<Rightarrow> py_error + retry_trace" where
  \<comment> \<open>\<open>time.sleep\<close> raises ValueError on a negative length\<close>
  "sleep d tr = (if d < 0 then Inl ValueError else Inr (tr\<lparr>sleeps := sleeps tr @ [d]\<rparr>))"

datatype iteration = Done result | Next "result option" | Fail py_error

definition except_handler :: "int \<Rightarrow> int \<Rightarrow> nat \<Rightarrow> result option \<Rightarrow> retry_trace \<Rightarrow> iteration \<times> retry_trace" where
  \<comment> \<open>the \<open>except Exception\<close> branch; an exception raised inside it leaves the function\<close>
  "except_handler max_retries base_delay attempt res tr =
     (if int attempt < max_retries - 1
      then (case sleep (base_delay * 2 ^ attempt) tr of
              Inl e \<Rightarrow> (Fail e, tr)
            | Inr tr' \<Rightarrow> (Next res, tr'))
      else (Next res, tr))"

definition attempt_once ::
  "(nat \<Rightarrow> outcome) \<Rightarrow> int \<Rightarrow> int \<Rightarrow> nat \<Rightarrow> result option \<Rightarrow> retry_trace \<Rightarrow> iteration \<times> retry_trace" where
  \<comment> \<open>one iteration of the \<open>for\<close> loop; \<open>res\<close> is the local variable \<open>result\<close>,
      \<open>None\<close> while it is unbound\<close>
  "attempt_once func max_retries base_delay attempt res tr =
     (let tr1 = tr\<lparr>calls := calls tr + 1\<rparr>
      in case func attempt of
           Raises \<Rightarrow> except_handler max_retries base_delay attempt res tr1
         | Returns r \<Rightarrow>
             if is_success r then (Done r, tr1)
             else (case error_text r of
                     Inl e \<Rightarrow> except_handler max_retries base_delay attempt (Some r) tr1
                   | Inr e \<Rightarrow>
                       if contains ''Invalid'' e \<or> contains ''API key'' e then (Done r, tr1)
                       else if int attempt < max_retries - 1
                       then (case sleep (base_delay * 2 ^ attempt) tr1 of
                               Inl e \<Rightarrow> except_handler max_retries base_delay attempt (Some r) tr1
                             | Inr tr2 \<Rightarrow> (Next (Some r), tr2))
                       else (Next (Some r), tr1)))"

fun retry_loop ::
  "(nat \<Rightarrow> outcome) \<Rightarrow> int \<Rightarrow> int \<Rightarrow> nat list \<Rightarrow> result option \<Rightarrow> retry_trace
     \<Rightarrow> (py_error + result) \<times> retry_trace" where
  "retry_loop func max_retries base_delay [] res tr =
     ((case res of None \<Rightarrow> Inl UnboundLocalError | Some r \<Rightarrow> Inr r), tr)"
| "retry_loop func max_retries base_delay (a # as) res tr =
     (case attempt_once func max_retries base_delay a res tr of
        (Done r, tr') \<Rightarrow> (Inr r, tr')
      | (Fail e, tr') \<Rightarrow> (Inl e, tr')
      | (Next res', tr') \<Rightarrow> retry_loop func max_retries base_delay as res' tr')"

text \<open>
  The result is what the caller gets (\<open>Inl\<close>: the exception that leaves the function)
  together with the number of calls of \<open>func\<close> and the sleeps made, in order.
\<close>

definition retry_with_backoff ::
  "(nat \<Rightarrow> outcome) \<Rightarrow> int \<Rightarrow> int \<Rightarrow> (py_error + result) \<times> retry_trace" where
  "retry_with_backoff func max_retries base_delay =
     retry_loop func max_retries base_delay [0..<nat max_retries] None \<lparr>calls = 0, sleeps = []\<rparr>"

text \<open>
  The value of the local variable \<open>result\<close> after the attempts \<open>as\<close>, none of which
  left the loop: the dict returned by the last attempt that returned one.
\<close>

fun last_returned :: "(nat \<Rightarrow> outcome) \<Rightarrow> nat list \<Rightarrow> result option \<Rightarrow> result option" where
  "last_returned func [] res = res"
| "last_returned func (a # as) res =
     last_returned func as (case func a of Raises \<Rightarrow> res | Returns r \<Rightarrow> Some r)"

text \<open>The classification of one attempt, as the loop body makes it.\<close>

definition is_terminal :: "result \<Rightarrow> bool" where
  \<comment> \<open>a failing result whose error text holds \<open>Invalid\<close> or \<open>API key\<close>\<close>
  "is_terminal r =
     (\<not> is_success r \<and>
      (case error_text r of
         Inl e \<Rightarrow> False
       | Inr e \<Rightarrow> contains ''Invalid'' e \<or> contains ''API key'' e))"

definition retryable :: "outcome \<Rightarrow> bool" where
  \<comment> \<open>the attempt raised, or returned a failing result that is not terminal\<close>
  "retryable out = (case out of Raises \<Rightarrow> True | Returns r \<Rightarrow> \<not> is_success r \<and> \<not> is_terminal r)"


section \<open>Post-processor (phase-3-post-processing/post-processor/lambda\_function.py)\<close>

text \<open>
  What the processor takes from outside the repository is a parameter of the model:
  \<open>json.loads\<close> (\<open>None\<close> when it raises), TextBlob's polarity of a text (\<open>None\<close> when the
  import or the analysis raises), the switch \<open>USE_AWS_COMPREHEND\<close> and the sentiment
  AWS Comprehend answers (\<open>None\<close> when the call raises).
\<close>

datatype json =
  JNull | JBool bool | JNum rat | JStr string | JArr "json list" | JObj "(string \<times> json) list"

record runtime =
  json_loads :: "string \<Rightarrow> json option"
  textblob_polarity :: "string \<Rightarrow> rat option"
  USE_AWS_COMPREHEND :: bool
  comprehend_sentiment :: "string \<Rightarrow> string option"

definition field_count :: "(string \<times> json) list \<Rightarrow> nat" where
  \<comment> \<open>\<open>len([v for v in data.values() if v is not None and v != ''])\<close>\<close>
  "field_count flds = length (filter (\<lambda>v. v \<noteq> JNull \<and> v \<noteq> JStr []) (map snd flds))"

definition completeness_score :: "runtime \<Rightarrow> string \<Rightarrow> rat" where
  \<comment> \<open>the bare \<open>except\<close> catches the parse error and the AttributeError of \<open>.values()\<close>
      on a parsed value that is not a dict\<close>
  "completeness_score rt raw_text =
     (case json_loads rt raw_text of
        Some (JObj flds) \<Rightarrow> min (int_truediv (int (field_count flds)) 10) 1
      | _ \<Rightarrow> fl (3 / 10))"

definition lower_char :: "char \<Rightarrow> char" where
  "lower_char c = (let n = of_char c :: nat in if 65 \<le> n \<and> n \<le> 90 then char_of (n + 32) else c)"

definition lower :: "string \<Rightarrow> string" where
  \<comment> \<open>\<open>str.lower\<close> on ASCII letters\<close>
  "lower s = map lower_char s"

definition source_reliability :: "(string \<times> rat) list" where
  "source_reliability =
     [(''api.themoviedb.org'', fl (95 / 100)),
      (''en.wikipedia.org'', fl (90 / 100)),
      (''newsapi.org'', fl (85 / 100)),
      (''twitter.com'', fl (80 / 100)),
      (''instagram.com'', fl (75 / 100)),
      (''youtube.com'', fl (85 / 100))]"

fun lookup_reliability :: "(string \<times> rat) list \<Rightarrow> string \<Rightarrow> rat" where
  \<comment> \<open>the first domain of the table found in the source wins; 0.5 when none is\<close>
  "lookup_reliability [] src = fl (5 / 10)"
| "lookup_reliability ((domain, score) # rest) src =
     (if contains domain src then score else lookup_reliability rest src)"

definition reliability_score :: "string \<Rightarrow> rat" where
  "reliability_score source = lookup_reliability source_reliability (lower source)"

definition calculate_weight :: "runtime \<Rightarrow> string \<Rightarrow> string \<Rightarrow> rat" where
  "calculate_weight rt raw_text source =
     py_round2 (fadd (fmul (completeness_score rt raw_text) (fl (5 / 10)))
                     (fmul (reliability_score source) (fl (5 / 10))))"

fun join_space :: "string list \<Rightarrow> string" where
  \<comment> \<open>\<open>' '.join(...)\<close>\<close>
  "join_space [] = []"
| "join_space [x] = x"
| "join_space (x # y # ys) = x @ '' '' @ join_space (y # ys)"

fun text_fields :: "(string \<times> json) list \<Rightarrow> string list" where
  \<comment> \<open>the string values whose key is not \<open>id\<close>, \<open>raw_text\<close> or \<open>source\<close>\<close>
  "text_fields [] = []"
| "text_fields ((k, JStr s) # rest) =
     (if k \<notin> set [''id'', ''raw_text'', ''source''] then s # text_fields rest else text_fields rest)"
| "text_fields ((k, v) # rest) = text_fields rest"

definition text_content :: "runtime \<Rightarrow> string \<Rightarrow> string" where
  \<comment> \<open>the text handed to the classifier, cut to 500 characters\<close>
  "text_content rt raw_text =
     take 500
       (if prefix ''{'' raw_text
        then (case json_loads rt raw_text of
                Some (JObj flds) \<Rightarrow> join_space (text_fields flds)
              | _ \<Rightarrow> raw_text)
        else raw_text)"

definition calculate_sentiment_textblob :: "runtime \<Rightarrow> string \<Rightarrow> string" where
  "calculate_sentiment_textblob rt raw_text =
     (case textblob_polarity rt (text_content rt raw_text) of
        None \<Rightarrow> ''neutral''
      | Some polarity \<Rightarrow>
          if fl (1 / 10) < polarity then ''positive''
          else if polarity < - fl (1 / 10) then ''negative''
          else ''neutral'')"

definition calculate_sentiment_aws :: "runtime \<Rightarrow> string \<Rightarrow> string" where
  "calculate_sentiment_aws rt raw_text =
     (case comprehend_sentiment rt (text_content rt raw_text) of
        None \<Rightarrow> ''neutral''
      | Some answer \<Rightarrow>
          (case map_of [(''positive'', ''positive''), (''negative'', ''negative''),
                        (''neutral'', ''neutral''), (''mixed'', ''neutral'')] (lower answer) of
             None \<Rightarrow> ''neutral''
           | Some s \<Rightarrow> s))"

definition calculate_sentiment :: "runtime \<Rightarrow> string \<Rightarrow> string" where
  "calculate_sentiment rt raw_text =
     (if USE_AWS_COMPREHEND rt then calculate_sentiment_aws rt raw_text
      else calculate_sentiment_textblob rt raw_text)"

text \<open>
  The table.  An item is a map from attribute names to values; the table maps the key
  \<open>(celebrity_id, source_type#timestamp)\<close> to its item and keeps the list of the
  updates it has applied.
\<close>

datatype field = FStr string | FNum rat

record update_request =
  Key :: "string \<times> string"
  UpdateExpression :: "(string \<times> string) list"
  ExpressionAttributeNames :: "(string \<times> string) list"
  ExpressionAttributeValues :: "(string \<times> field) list"

record table =
  items :: "string \<times> string \<rightharpoonup> (string \<rightharpoonup> field)"
  update_log :: "update_request list"

definition resolve_name :: "(string \<times> string) list \<Rightarrow> string \<Rightarrow> py_error + string" where
  "resolve_name names path =
     (if prefix ''#'' path
      then (case map_of names path of None \<Rightarrow> Inl ClientError | Some n \<Rightarrow> Inr n)
      else Inr path)"

fun apply_set ::
  "(string \<times> string) list \<Rightarrow> (string \<times> field) list \<Rightarrow> (string \<times> string) list
     \<Rightarrow> (string \<rightharpoonup> field) \<Rightarrow> py_error + (string \<rightharpoonup> field)" where
  "apply_set names vals [] it = Inr it"
| "apply_set names vals ((path, placeholder) # clauses) it =
     (case resolve_name names path of
        Inl e \<Rightarrow> Inl e
      | Inr n \<Rightarrow>
          (case map_of vals placeholder of
             None \<Rightarrow> Inl ClientError
           | Some v \<Rightarrow> apply_set names vals clauses (it(n \<mapsto> v))))"

text \<open>
  Modelled from the spec: the store's update (\<open>table.update_item\<close>, an external
  collaborator): given the full key, it sets the attributes named by the \<open>SET\<close>
  clauses and touches no other; an item that does not exist yet is created with its
  key attributes.  \<open>UpdateExpression\<close> is the list of the clauses \<open>path = :value\<close>.
\<close>

definition base_item :: "table \<Rightarrow> string \<times> string \<Rightarrow> (string \<rightharpoonup> field)" where
  \<comment> \<open>the item an update starts from: the stored one, or a new one with its key\<close>
  "base_item tb k =
     (case items tb k of
        Some it \<Rightarrow> it
      | None \<Rightarrow> [''celebrity_id'' \<mapsto> FStr (fst k), ''source_type#timestamp'' \<mapsto> FStr (snd k)])"

definition update_item :: "update_request \<Rightarrow> table \<Rightarrow> py_error + table" where
  "update_item req tb =
     (case apply_set (ExpressionAttributeNames req) (ExpressionAttributeValues req)
             (UpdateExpression req) (base_item tb (Key req)) of
        Inl e \<Rightarrow> Inl e
      | Inr it \<Rightarrow> Inr (tb\<lparr>items := (items tb)(Key req \<mapsto> it),
                           update_log := update_log tb @ [req]\<rparr>))"

text \<open>
  A stream record: \<open>eventName\<close> and \<open>dynamodb\<close> are read with \<open>record[...]\<close> (a missing
  key raises KeyError, \<open>None\<close> here); \<open>NewImage\<close> may be absent; an attribute of the
  image is a dict from a type tag to a value, read with \<open>.get('S')\<close>.
\<close>

type_synonym image = "(string \<times> (string \<times> string) list) list"

record dynamodb_part =
  NewImage :: "image option"

record stream_record =
  eventName :: "string option"
  dynamodb :: "dynamodb_part option"

definition get_S :: "image \<Rightarrow> string \<Rightarrow> string option" where
  \<comment> \<open>\<open>new_image.get(name, {}).get('S')\<close>\<close>
  "get_S img name = (case map_of img name of None \<Rightarrow> None | Some av \<Rightarrow> map_of av ''S'')"

definition present :: "string option \<Rightarrow> bool" where
  \<comment> \<open>truth value of an extracted field: \<open>None\<close> and the empty string are false\<close>
  "present v = (case v of None \<Rightarrow> False | Some s \<Rightarrow> s \<noteq> [])"

text \<open>
  The update \<open>process_stream_record\<close> builds from the four extracted fields and the
  clock (\<open>now\<close> is \<open>datetime.utcnow().isoformat()\<close>).
\<close>

definition enrichment_request ::
  "runtime \<Rightarrow> string \<Rightarrow> string \<Rightarrow> string \<Rightarrow> string \<Rightarrow> string \<Rightarrow> update_request" where
  "enrichment_request rt now celebrity_id source_type_timestamp raw_text source =
     (let weight = calculate_weight rt raw_text source;
          sentiment = calculate_sentiment rt raw_text
      in \<lparr>Key = (celebrity_id, source_type_timestamp),
          UpdateExpression =
            [(''#weight'', '':weight''), (''#sentiment'', '':sentiment''),
             (''updated_at'', '':updated_at'')],
          ExpressionAttributeNames = [(''#weight'', ''weight''), (''#sentiment'', ''sentiment'')],
          ExpressionAttributeValues =
            [('':weight'', FNum weight), ('':sentiment'', FStr sentiment),
             ('':updated_at'', FStr (now @ ''Z''))]\<rparr>)"

text \<open>
  The part of \<open>process_stream_record\<close> before the call of \<open>table.update_item\<close>:
  an exception (\<open>Inl\<close>), a skip (\<open>None\<close>) or the update to issue.
\<close>

definition enrichment_update :: "runtime \<Rightarrow> string \<Rightarrow> stream_record \<Rightarrow> py_error + update_request option" where
  "enrichment_update rt now strec =
     (case eventName strec of
        None \<Rightarrow> Inl KeyError
      | Some event_name \<Rightarrow>
          if event_name \<notin> set [''INSERT'', ''MODIFY''] then Inr None
          else (case dynamodb strec of
                  None \<Rightarrow> Inl KeyError
                | Some dynamodb_record \<Rightarrow>
                    (case NewImage dynamodb_record of
                       None \<Rightarrow> Inr None
                     | Some new_image \<Rightarrow>
                         (let celebrity_id = get_S new_image ''celebrity_id'';
                              source_type_timestamp = get_S new_image ''source_type#timestamp'';
                              raw_text = get_S new_image ''raw_text'';
                              source = get_S new_image ''source''
                          in if \<not> (present celebrity_id \<and> present source_type_timestamp
                                    \<and> present raw_text \<and> present source)
                             then Inr None
                             else Inr (Some (enrichment_request rt now
                                               (the celebrity_id) (the source_type_timestamp)
                                               (the raw_text) (the source)))))))"

definition process_stream_record :: "runtime \<Rightarrow> string \<Rightarrow> stream_record \<Rightarrow> table \<Rightarrow> bool \<times> table" where
  \<comment> \<open>every exception is caught by \<open>except Exception\<close> and turned into \<open>False\<close>\<close>
  "process_stream_record rt now strec tb =
     (case enrichment_update rt now strec of
        Inl e \<Rightarrow> (False, tb)
      | Inr None \<Rightarrow> (True, tb)
      | Inr (Some req) \<Rightarrow>
          (case update_item req tb of
             Inl e \<Rightarrow> (False, tb)
           | Inr tb' \<Rightarrow> (True, tb')))"

text \<open>
  The weight as the specification words it, for a payload with \<open>n\<close> non-empty fields
  and a source of the given reliability:
  \<open>round(0.5 * min(n / 10, 1) + 0.5 * reliability, 2)\<close>.
\<close>

definition spec_weight :: "nat \<Rightarrow> rat \<Rightarrow> rat" where
  "spec_weight n reliability =
     py_round2 (fadd (fmul (fl (5 / 10)) (min (int_truediv (int n) 10) 1))
                     (fmul (fl (5 / 10)) reliability))"

fun non_empty_field_count :: "json \<Rightarrow> nat" where
  \<comment> \<open>the non-empty fields of a parsed payload; a value that is not an object has none\<close>
  "non_empty_field_count (JObj flds) = field_count flds"
| "non_empty_field_count v = 0"

definition stored :: "table \<Rightarrow> string \<times> string \<Rightarrow> string \<Rightarrow> field option" where
  \<comment> \<open>the value of an attribute of the item under a key, if any\<close>
  "stored tb k a = (case items tb k of None \<Rightarrow> None | Some it \<Rightarrow> it a)"


text \<open>
  A runtime for the examples: \<open>json.loads\<close> on three payloads (an object with one
  field, an empty array, a text that is not JSON), a classifier that scores every
  text 0, the TextBlob path selected.
\<close>

definition example_runtime :: runtime where
  "example_runtime =
     \<lparr>json_loads =
        (\<lambda>s. if s = ''{\"title\":\"X\"}'' then Some (JObj [(''title'', JStr ''X'')])
             else if s = ''[]'' then Some (JArr [])
             else None),
      textblob_polarity = (\<lambda>s. Some 0),
      USE_AWS_COMPREHEND = False,
      comprehend_sentiment = (\<lambda>s. None)\<rparr>"

definition example_record :: "string \<Rightarrow> stream_record" where
  \<comment> \<open>an INSERT notification for \<open>(celeb_001, youtube#1)\<close> with the given raw text\<close>
  "example_record raw_text =
     \<lparr>eventName = Some ''INSERT'',
      dynamodb = Some \<lparr>NewImage = Some
        [(''celebrity_id'', [(''S'', ''celeb_001'')]),
         (''source_type#timestamp'', [(''S'', ''youtube#1'')]),
         (''raw_text'', [(''S'', raw_text)]),
         (''source'', [(''S'', ''https://youtube.com/channel/x'')])]\<rparr>\<rparr>"

definition example_table :: table where
  \<comment> \<open>the table holding the record of that notification\<close>
  "example_table =
     \<lparr>items = [(''celeb_001'', ''youtube#1'') \<mapsto>
                [''celebrity_id'' \<mapsto> FStr ''celeb_001'',
                 ''source_type#timestamp'' \<mapsto> FStr ''youtube#1'',
                 ''raw_text'' \<mapsto> FStr ''not json'',
                 ''source'' \<mapsto> FStr ''https://youtube.com/channel/x'']],
      update_log = []\<rparr>"

section \<open>Properties of the circuit breaker\<close>

lemma record_failure_fields:
  "failure_threshold (record_failure now cb) = failure_threshold cb"
  "timeout (record_failure now cb) = timeout cb"
  "failure_count (record_failure now cb) = failure_count cb + 1"
  "last_failure_time (record_failure now cb) = Some now"
  "is_open (record_failure now cb) \<longleftrightarrow>
     is_open cb \<or> failure_threshold cb \<le> failure_count cb + 1"
  by (simp_all add: record_failure_def Let_def)

lemma record_failures_threshold:
  "failure_threshold (record_failures ts cb) = failure_threshold cb"
  by (induction ts arbitrary: cb) (simp_all add: record_failure_fields)






section \<open>Properties of the rotation manager\<close>

lemma round_robin_selections:
  assumes "strategy m = ''round_robin''" and "keys m \<noteq> []"
  shows "selections ins m =
           Inr (map (\<lambda>j. Some (keys m ! nat ((current_index m + int j) mod int (length (keys m)))))
                  [0..<length ins],
                m\<lparr>current_index := current_index m + int (length ins)\<rparr>)"
  using assms
proof (induction ins arbitrary: m)
  case Nil
  show ?case by simp
next
  case (Cons a ins)
  obtain now rnd where a: "a = (now, rnd)" by (cases a)
  let ?m' = "m\<lparr>current_index := current_index m + 1\<rparr>"
  have step: "get_next_key now rnd m =
      Inr (Some (keys m ! nat (current_index m mod int (length (keys m)))), ?m')"
    using Cons.prems by (simp add: get_next_key_def get_round_robin_key_def)
  have ih: "selections ins ?m' =
      Inr (map (\<lambda>j. Some (keys m ! nat ((current_index m + 1 + int j) mod int (length (keys m)))))
             [0..<length ins],
           m\<lparr>current_index := current_index m + 1 + int (length ins)\<rparr>)"
    using Cons.IH [of ?m'] Cons.prems by simp
  let ?f = "\<lambda>j. Some (keys m ! nat ((current_index m + int j) mod int (length (keys m))))"
  have shift: "map ?f [0..<length (a # ins)] = ?f 0 # map (\<lambda>j. ?f (Suc j)) [0..<length ins]"
    by (simp add: upt_conv_Cons map_Suc_upt [symmetric] o_def del: upt_Suc)
  have ih': "selections ins ?m' =
      Inr (map (\<lambda>j. ?f (Suc j)) [0..<length ins],
           m\<lparr>current_index := current_index m + int (length (a # ins))\<rparr>)"
    using ih by (simp add: ac_simps)
  have "selections (a # ins) m =
      Inr (?f 0 # map (\<lambda>j. ?f (Suc j)) [0..<length ins],
           m\<lparr>current_index := current_index m + int (length (a # ins))\<rparr>)"
    unfolding a using step ih' by simp
  then show ?case unfolding shift .
qed

text \<open>
  C8.  A manager built with the round-robin strategy over a non-empty list of \<open>N\<close>
  keys: in any run of \<open>get_next_key\<close> calls every call returns a key, the \<open>i\<close>-th
  call returns the key at position \<open>i mod N\<close>, and the \<open>i\<close>-th and the \<open>(i+N)\<close>-th
  calls return the same key.
\<close>

theorem round_robin_cyclic:
  assumes "ks \<noteq> []"
  shows "\<exists>sel m'. selections ins (APIKeyRotationManager_init ''round_robin'' ks thr) = Inr (sel, m')
           \<and> length sel = length ins
           \<and> (\<forall>i. i < length ins \<longrightarrow> sel ! i = Some (ks ! (i mod length ks)))
           \<and> (\<forall>i. i + length ks < length ins \<longrightarrow> sel ! i = sel ! (i + length ks))"
proof -
  let ?m = "APIKeyRotationManager_init ''round_robin'' ks thr"
  let ?sel = "map (\<lambda>j. Some (ks ! nat (int j mod int (length ks)))) [0..<length ins]"
  have m: "strategy ?m = ''round_robin''" "keys ?m = ks" "current_index ?m = 0"
    by (simp_all add: APIKeyRotationManager_init_def)
  have run: "selections ins ?m = Inr (?sel, ?m\<lparr>current_index := int (length ins)\<rparr>)"
    using round_robin_selections [of ?m ins] assms m by simp
  have nth: "?sel ! i = Some (ks ! (i mod length ks))" if "i < length ins" for i
    using that by (simp add: zmod_int [symmetric] del: upt_Suc)
  have cyc: "?sel ! i = ?sel ! (i + length ks)" if "i + length ks < length ins" for i
  proof -
    have "i < length ins" using that by simp
    then show ?thesis using nth [of i] nth [OF that] by simp
  qed
  show ?thesis using run nth cyc by (intro exI [of _ ?sel] exI) auto
qed

theorem round_robin_cyclic_witness:
  "[''k1'', ''k2''] \<noteq> []
   \<and> fst (projr (selections [(0, 0), (0, 0), (0, 0), (0, 0)]
                  (APIKeyRotationManager_init ''round_robin'' [''k1'', ''k2''] 95)))
       = [Some ''k1'', Some ''k2'', Some ''k1'', Some ''k2'']"
proof -
  have ne: "[''k1'', ''k2''] \<noteq> ([] :: string list)" by simp
  obtain sel m' where
    run: "selections [(0, 0), (0, 0), (0, 0), (0, 0)]
            (APIKeyRotationManager_init ''round_robin'' [''k1'', ''k2''] 95) = Inr (sel, m')"
    and len: "length sel = length [(0::int, 0::nat), (0, 0), (0, 0), (0, 0)]"
    and nth: "\<forall>i. i < length [(0::int, 0::nat), (0, 0), (0, 0), (0, 0)]
                \<longrightarrow> sel ! i = Some ([''k1'', ''k2''] ! (i mod length [''k1'', ''k2'']))"
    using round_robin_cyclic [OF ne, of "[(0, 0), (0, 0), (0, 0), (0, 0)]" 95] by blast
  have "sel ! 0 = Some ''k1''" "sel ! 1 = Some ''k2''" "sel ! 2 = Some ''k1''" "sel ! 3 = Some ''k2''"
    using nth by (simp_all add: numeral_eq_Suc mod_Suc)
  moreover have "length sel = 4" using len by simp
  ultimately have "sel = [Some ''k1'', Some ''k2'', Some ''k1'', Some ''k2'']"
    by (intro nth_equalityI) (auto simp: less_Suc_eq numeral_eq_Suc)
  then show ?thesis using run ne by simp
qed


section \<open>Facts about rounding\<close>

lemma pow2_powi: "pow2 k = 2 powi k"
  unfolding pow2_def power_int_def by (simp add: power_one_over)

lemma pow2_pos: "0 < pow2 k"
  by (simp add: pow2_powi)

lemma pow2_add: "pow2 (a + b) = pow2 a * pow2 b"
  by (simp add: pow2_powi power_int_add)

lemma pow2_diff: "pow2 (a - b) = pow2 a / pow2 b"
  by (simp add: pow2_powi power_int_diff)

lemma pow2_less_mono: "a < b \<Longrightarrow> pow2 a < pow2 b"
  unfolding pow2_powi by (rule power_int_strict_increasing) simp_all

lemma pow2_le_iff: "pow2 a \<le> pow2 b \<longleftrightarrow> a \<le> b"
  using pow2_less_mono [of a b] pow2_less_mono [of b a] by (cases a b rule: linorder_cases) auto

lemma pow2_less_iff: "pow2 a < pow2 b \<longleftrightarrow> a < b"
  using pow2_le_iff [of b a] by (simp add: not_le [symmetric])

lemma pow2_of_int: "0 \<le> k \<Longrightarrow> pow2 k = of_int (2 ^ nat k)"
  by (simp add: pow2_def)

lemma ilog2_lower:
  assumes "0 < x"
  shows "pow2 (ilog2 x) \<le> x"
proof -
  obtain p q where pq: "quotient_of x = (p, q)" by (cases "quotient_of x")
  have q: "0 < q" using quotient_of_denom_pos [OF pq] .
  have x: "x = of_int p / of_int q" using quotient_of_div [OF pq] .
  have p: "0 < p" using assms q unfolding x by (simp add: zero_less_divide_iff)
  let ?k = "bitlen p - bitlen q"
  have bp: "1 \<le> bitlen p" using p bitlen_eq_zero_iff [of p] bitlen_nonneg [of p] by linarith
  have bq: "0 \<le> bitlen q" by (rule bitlen_nonneg)
  have lo: "(2::int) ^ nat (bitlen p - 1) \<le> p" using bitlen_bounds [OF p] by simp
  have hi: "q < 2 ^ nat (bitlen q)" using bitlen_bounds [OF q] by simp
  have lo': "pow2 (bitlen p - 1) \<le> of_int p"
    using lo bp by (simp add: pow2_of_int of_int_le_iff [symmetric] del: of_int_le_iff)
  have hi': "of_int q \<le> pow2 (bitlen q)"
    using hi bq by (simp add: pow2_of_int of_int_le_iff [symmetric] less_imp_le del: of_int_le_iff)
  have "pow2 (?k - 1) = pow2 (bitlen p - 1) / pow2 (bitlen q)"
    using pow2_diff [of "bitlen p - 1" "bitlen q"] by (simp add: algebra_simps)
  also have "\<dots> \<le> of_int p / of_int q"
    using lo' hi' q p pow2_pos [of "bitlen q"] pow2_pos [of "bitlen p - 1"]
    by (intro frac_le) auto
  finally have "pow2 (?k - 1) \<le> x" unfolding x .
  then show ?thesis
    by (simp add: ilog2_def pq Let_def)
qed

lemma round_half_even_le: "x \<le> of_int n \<Longrightarrow> round_half_even x \<le> n"
proof -
  have f: "\<lfloor>x\<rfloor> \<le> n" if "x \<le> of_int n" using that by (simp add: floor_le_iff)
  show "x \<le> of_int n \<Longrightarrow> round_half_even x \<le> n"
  proof (cases "\<lfloor>x\<rfloor> = n")
    case True
    assume "x \<le> of_int n"
    moreover have "of_int \<lfloor>x\<rfloor> \<le> x" by simp
    ultimately have "x = of_int \<lfloor>x\<rfloor>" using True by simp
    then have "x - of_int \<lfloor>x\<rfloor> = 0" by simp
    then show ?thesis using True by (simp add: round_half_even_def Let_def)
  next
    case False
    assume "x \<le> of_int n"
    then have "\<lfloor>x\<rfloor> + 1 \<le> n" using f False by simp
    then show ?thesis by (simp add: round_half_even_def Let_def)
  qed
qed

lemma round_half_even_ge: "of_int n \<le> x \<Longrightarrow> n \<le> round_half_even x"
proof -
  assume "of_int n \<le> x"
  then have "n \<le> \<lfloor>x\<rfloor>" by (simp add: le_floor_iff)
  then show ?thesis by (simp add: round_half_even_def Let_def)
qed


lemma round_half_even_of_int: "round_half_even (of_int n) = n"
  by (simp add: round_half_even_def)

lemma fl_nonneg:
  assumes "0 \<le> x"
  shows "0 \<le> fl x"
proof (cases "x = 0")
  case True
  then show ?thesis by (simp add: fl_def)
next
  case False
  then have x: "0 < x" using assms by simp
  let ?u = "pow2 (max (ilog2 \<bar>x\<bar>) (- 1022) - 52)"
  have "0 \<le> \<bar>x\<bar> / ?u" using pow2_pos [of "max (ilog2 \<bar>x\<bar>) (- 1022) - 52"] by simp
  then have "0 \<le> round_half_even (\<bar>x\<bar> / ?u)"
    using round_half_even_ge [of 0 "\<bar>x\<bar> / ?u"] by simp
  then show ?thesis
    using x pow2_pos [of "max (ilog2 \<bar>x\<bar>) (- 1022) - 52"]
    by (simp add: fl_def Let_def)
qed

lemma fl_le:
  assumes x: "0 \<le> x" and le: "x \<le> of_int n * pow2 j"
    and rep: "of_int n * pow2 j < pow2 (j + 53)" and j: "- 1074 \<le> j"
  shows "fl x \<le> of_int n * pow2 j"
proof (cases "x = 0")
  case True
  then show ?thesis using le by (simp add: fl_def)
next
  case False
  then have xpos: "0 < x" using x by simp
  let ?e = "max (ilog2 \<bar>x\<bar>) (- 1022)"
  let ?u = "pow2 (?e - 52)"
  have "pow2 (ilog2 x) < pow2 (j + 53)"
    using ilog2_lower [OF xpos] le rep by linarith
  then have "ilog2 x < j + 53" by (simp add: pow2_less_iff)
  then have e: "?e \<le> j + 52" using j xpos by simp
  have u: "0 < ?u" by (rule pow2_pos)
  have "pow2 j / ?u = pow2 (j - (?e - 52))" by (simp add: pow2_diff)
  also have "\<dots> = of_int (2 ^ nat (j - (?e - 52)))"
  proof (rule pow2_of_int)
    show "0 \<le> j - (?e - 52)" using e by linarith
  qed
  finally have c0: "pow2 j / ?u = of_int (2 ^ nat (j - (?e - 52)))" .
  have "of_int n * pow2 j / ?u = of_int n * (pow2 j / ?u)" by simp
  also have "\<dots> = of_int (n * 2 ^ nat (j - (?e - 52)))"
    unfolding c0 by simp
  finally have c: "of_int n * pow2 j / ?u = of_int (n * 2 ^ nat (j - (?e - 52)))" .
  have "\<bar>x\<bar> / ?u \<le> of_int n * pow2 j / ?u"
    using le xpos u by (simp add: divide_right_mono)
  then have "round_half_even (\<bar>x\<bar> / ?u) \<le> n * 2 ^ nat (j - (?e - 52))"
    unfolding c by (rule round_half_even_le)
  then have "of_int (round_half_even (\<bar>x\<bar> / ?u)) \<le> of_int n * pow2 j / ?u"
    unfolding c by (simp only: of_int_le_iff)
  then have "of_int (round_half_even (\<bar>x\<bar> / ?u)) * ?u \<le> of_int n * pow2 j"
    using u by (simp add: pos_le_divide_eq)
  then show ?thesis
    using xpos by (simp add: fl_def Let_def)
qed

lemma fl_le_one: "0 \<le> x \<Longrightarrow> x \<le> 1 \<Longrightarrow> fl x \<le> 1"
  using fl_le [of x 1 0] by (simp add: pow2_def)

lemma fl_le_half: "0 \<le> x \<Longrightarrow> x \<le> 1 / 2 \<Longrightarrow> fl x \<le> 1 / 2"
  using fl_le [of x 1 "- 1"] by (simp add: pow2_def)

lemma fl_le_100: "0 \<le> x \<Longrightarrow> x \<le> 100 \<Longrightarrow> fl x \<le> 100"
  using fl_le [of x 100 0] by (simp add: pow2_def)


section \<open>Request statistics\<close>

lemma error_rate_bounds:
  assumes "0 \<le> errors s" and "errors s \<le> requests s" and "requests s \<noteq> 0"
  shows "0 \<le> error_rate s \<and> error_rate s \<le> 100"
proof -
  let ?q = "of_int (errors s) / of_int (requests s) :: rat"
  have r: "0 < requests s" using assms by simp
  have q0: "0 \<le> ?q" using assms r by simp
  have q1: "?q \<le> 1" using assms r by simp
  have f0: "0 \<le> fl ?q" using q0 by (rule fl_nonneg)
  have f1: "fl ?q \<le> 1" using q0 q1 by (rule fl_le_one)
  have a: "0 \<le> fl ?q * 100" using f0 by simp
  have b: "fl ?q * 100 \<le> 100" using f1 by simp
  have "0 \<le> fl (fl ?q * 100)" using a by (rule fl_nonneg)
  moreover have "fl (fl ?q * 100) \<le> 100" using a b by (rule fl_le_100)
  ultimately show ?thesis
    unfolding error_rate_def fmul_def int_truediv_def by blast
qed

lemma record_request_fields:
  "keys (record_request key ok et now m) = keys m"
  "strategy (record_request key ok et now m) = strategy m"
  "current_index (record_request key ok et now m) = current_index m"
  "rate_limit_threshold (record_request key ok et now m) = rate_limit_threshold m"
  by (cases "key_stats m key"; simp add: record_request_def Let_def)+

lemma record_request_dom:
  "dom (key_stats (record_request key ok et now m)) = dom (key_stats m)"
proof (cases "key_stats m key")
  case None
  then show ?thesis by (simp add: record_request_def)
next
  case (Some s)
  then have "key \<in> dom (key_stats m)" by blast
  then show ?thesis using Some by (simp add: record_request_def Let_def insert_absorb)
qed

lemma record_request_counters:
  assumes inv: "\<forall>k s. key_stats m k = Some s \<longrightarrow> 0 \<le> errors s \<and> errors s \<le> requests s"
    and new: "key_stats (record_request key ok et now m) k = Some s"
  shows "0 \<le> errors s \<and> errors s \<le> requests s"
proof (cases "key_stats m key")
  case None
  then show ?thesis using inv new by (simp add: record_request_def)
next
  case (Some s0)
  have s0: "0 \<le> errors s0 \<and> errors s0 \<le> requests s0" using inv Some by blast
  show ?thesis
  proof (cases "k = key")
    case True
    then have "s = (if \<not> ok
                    then s0\<lparr>requests := requests s0 + 1, errors := errors s0 + 1,
                            last_error := et, last_error_time := Some now\<rparr>
                    else s0\<lparr>requests := requests s0 + 1\<rparr>)"
      using new Some by (auto simp: record_request_def Let_def)
    then show ?thesis using s0 by (cases ok) simp_all
  next
    case False
    then have "key_stats m k = Some s"
      using new Some by (simp add: record_request_def Let_def)
    then show ?thesis using inv by blast
  qed
qed

lemma record_requests_keys: "keys (record_requests cs m) = keys m"
proof (induction cs arbitrary: m)
  case Nil
  show ?case by simp
next
  case (Cons c cs)
  obtain key ok et now where c: "c = (key, ok, et, now)" by (cases c)
  show ?case unfolding c by (simp add: Cons.IH record_request_fields)
qed

lemma record_requests_dom: "dom (key_stats (record_requests cs m)) = dom (key_stats m)"
proof (induction cs arbitrary: m)
  case Nil
  show ?case by simp
next
  case (Cons c cs)
  obtain key ok et now where c: "c = (key, ok, et, now)" by (cases c)
  show ?case unfolding c by (simp add: Cons.IH record_request_dom)
qed

lemma record_requests_counters:
  assumes "\<forall>k s. key_stats m k = Some s \<longrightarrow> 0 \<le> errors s \<and> errors s \<le> requests s"
  shows "\<forall>k s. key_stats (record_requests cs m) k = Some s \<longrightarrow> 0 \<le> errors s \<and> errors s \<le> requests s"
  using assms
proof (induction cs arbitrary: m)
  case Nil
  then show ?case by simp
next
  case (Cons c cs)
  obtain key ok et now where c: "c = (key, ok, et, now)" by (cases c)
  have "\<forall>k s. key_stats (record_request key ok et now m) k = Some s
          \<longrightarrow> 0 \<le> errors s \<and> errors s \<le> requests s"
    using record_request_counters [OF Cons.prems] by blast
  from Cons.IH [OF this] show ?case unfolding c by simp
qed

lemma map_of_fresh:
  "map_of (map (\<lambda>k. (k, v)) ks) k = (if k \<in> set ks then Some v else None)"
  by (induction ks) simp_all

lemma init_stats:
  "key_stats (APIKeyRotationManager_init strat ks thr) k = (if k \<in> set ks then Some fresh_stat else None)"
  unfolding APIKeyRotationManager_init_def by (simp only: rotation_manager.simps map_of_fresh)

lemma get_statistics_rows_ok:
  assumes "set ks \<subseteq> dom (key_stats m)"
    and "\<forall>k s. key_stats m k = Some s \<longrightarrow> 0 \<le> errors s \<and> errors s \<le> requests s"
    and "\<forall>short r e rate le. acc short = Some (r, e, rate, le) \<longrightarrow> 0 \<le> e \<and> e \<le> r \<and> 0 \<le> rate \<and> rate \<le> 100"
  shows "\<exists>rows. get_statistics_rows m ks acc = Inr rows \<and>
           (\<forall>short r e rate le. rows short = Some (r, e, rate, le) \<longrightarrow> 0 \<le> e \<and> e \<le> r \<and> 0 \<le> rate \<and> rate \<le> 100)"
  using assms
proof (induction ks arbitrary: acc)
  case Nil
  then show ?case by simp
next
  case (Cons k ks)
  from Cons.prems(1) obtain s where s: "key_stats m k = Some s" by auto
  have c: "0 \<le> errors s \<and> errors s \<le> requests s" using Cons.prems(2) s by blast
  let ?rate = "if 0 < requests s then error_rate s else 0"
  have rate: "0 \<le> ?rate \<and> ?rate \<le> 100"
  proof (cases "0 < requests s")
    case True
    then show ?thesis using error_rate_bounds [of s] c by simp
  next
    case False
    then show ?thesis by simp
  qed
  let ?acc = "acc(take 10 k @ ''...'' \<mapsto> (requests s, errors s, ?rate, last_error s))"
  have acc: "\<forall>short r e rate le. ?acc short = Some (r, e, rate, le) \<longrightarrow> 0 \<le> e \<and> e \<le> r \<and> 0 \<le> rate \<and> rate \<le> 100"
  proof (intro allI impI)
    fix short r e rate le
    assume a: "?acc short = Some (r, e, rate, le)"
    show "0 \<le> e \<and> e \<le> r \<and> 0 \<le> rate \<and> rate \<le> 100"
    proof (cases "short = take 10 k @ ''...''")
      case True
      then have "r = requests s" "e = errors s" "rate = ?rate"
        using a by (auto split: if_splits)
      then show ?thesis using c rate by (simp only:)
    next
      case False
      then have "acc short = Some (r, e, rate, le)" using a by simp
      then show ?thesis using Cons.prems(3) by blast
    qed
  qed
  have sub: "set ks \<subseteq> dom (key_stats m)" using Cons.prems(1) by simp
  have step: "get_statistics_rows m (k # ks) acc = get_statistics_rows m ks ?acc"
    by (simp add: stat_lookup_def s)
  show ?case unfolding step by (rule Cons.IH [OF sub Cons.prems(2) acc])
qed

text \<open>
  C10.  After any sequence of \<open>record_request\<close> calls on a fresh manager, the tracked
  keys are exactly the loaded ones, every tracked key has \<open>0 \<le> errors \<le> requests\<close>,
  the error rate computed where \<open>requests\<close> is not 0 lies between 0 and 100,
  \<open>get_statistics\<close> returns (no KeyError) rows with the same bounds, and for a key
  that is not managed \<open>record_request\<close> returns the state unchanged and
  \<open>should_skip_key\<close> (which only reads the state) is False.
\<close>

theorem key_stats_invariant:
  assumes "m = record_requests cs (APIKeyRotationManager_init strat ks thr)"
  shows "dom (key_stats m) = set ks
     \<and> (\<forall>k s. key_stats m k = Some s \<longrightarrow>
            0 \<le> errors s \<and> errors s \<le> requests s
            \<and> (requests s \<noteq> 0 \<longrightarrow> 0 \<le> error_rate s \<and> error_rate s \<le> 100))
     \<and> (\<exists>rows. get_statistics m = Inr rows
            \<and> (\<forall>short r e rate le. rows short = Some (r, e, rate, le) \<longrightarrow>
                   0 \<le> e \<and> e \<le> r \<and> 0 \<le> rate \<and> rate \<le> 100))
     \<and> (\<forall>k ok et now. k \<notin> set ks \<longrightarrow>
            record_request k ok et now m = m \<and> \<not> should_skip_key k m)"
proof -
  let ?m0 = "APIKeyRotationManager_init strat ks thr"
  have dom0: "dom (key_stats ?m0) = set ks"
    by (auto simp: init_stats dom_def)
  have inv0: "\<forall>k s. key_stats ?m0 k = Some s \<longrightarrow> 0 \<le> errors s \<and> errors s \<le> requests s"
    by (auto simp: init_stats fresh_stat_def split: if_splits)
  have d: "dom (key_stats m) = set ks"
    unfolding assms by (simp add: record_requests_dom dom0)
  have inv: "\<forall>k s. key_stats m k = Some s \<longrightarrow> 0 \<le> errors s \<and> errors s \<le> requests s"
    unfolding assms by (rule record_requests_counters [OF inv0])
  have keys: "keys m = ks"
    unfolding assms by (simp add: record_requests_keys APIKeyRotationManager_init_def)
  have rates: "\<forall>k s. key_stats m k = Some s \<longrightarrow>
            0 \<le> errors s \<and> errors s \<le> requests s
            \<and> (requests s \<noteq> 0 \<longrightarrow> 0 \<le> error_rate s \<and> error_rate s \<le> 100)"
    using inv error_rate_bounds by blast
  have "set (keys m) \<subseteq> dom (key_stats m)" using d keys by simp
  from get_statistics_rows_ok [OF this inv, of Map.empty]
  have stats: "\<exists>rows. get_statistics m = Inr rows
            \<and> (\<forall>short r e rate le. rows short = Some (r, e, rate, le) \<longrightarrow>
                   0 \<le> e \<and> e \<le> r \<and> 0 \<le> rate \<and> rate \<le> 100)"
    by (simp add: get_statistics_def)
  have unk: "\<forall>k ok et now. k \<notin> set ks \<longrightarrow>
            record_request k ok et now m = m \<and> \<not> should_skip_key k m"
  proof (intro allI impI)
    fix k ok et now
    assume "k \<notin> set ks"
    then have "key_stats m k = None" using d by blast
    then show "record_request k ok et now m = m \<and> \<not> should_skip_key k m"
      by (simp add: record_request_def should_skip_key_def)
  qed
  from d rates stats unk show ?thesis by blast
qed

theorem key_stats_invariant_witness:
  "dom (key_stats (record_requests [(''k1'', False, Some ''TIMEOUT'', 0), (''k1'', True, None, 1),
                                     (''zz'', False, None, 2)]
                     (APIKeyRotationManager_init ''round_robin'' [''k1''] 95))) = {''k1''}
   \<and> record_request ''zz'' False None 5
        (record_requests [(''k1'', False, Some ''TIMEOUT'', 0), (''k1'', True, None, 1),
                          (''zz'', False, None, 2)]
           (APIKeyRotationManager_init ''round_robin'' [''k1''] 95))
      = record_requests [(''k1'', False, Some ''TIMEOUT'', 0), (''k1'', True, None, 1),
                         (''zz'', False, None, 2)]
          (APIKeyRotationManager_init ''round_robin'' [''k1''] 95)
   \<and> \<not> should_skip_key ''zz''
        (record_requests [(''k1'', False, Some ''TIMEOUT'', 0), (''k1'', True, None, 1),
                          (''zz'', False, None, 2)]
           (APIKeyRotationManager_init ''round_robin'' [''k1''] 95))"
proof -
  have nin: "''zz'' \<notin> set [''k1'']" by simp
  show ?thesis
    using key_stats_invariant [OF refl, of "[(''k1'', False, Some ''TIMEOUT'', 0), (''k1'', True, None, 1),
                          (''zz'', False, None, 2)]" "''round_robin''" "[''k1'']" 95] nin
    by simp
qed


text \<open>
  C9.  \<open>should_skip_key\<close> is meant to be True exactly when at least one request is
  recorded and the error rate, as a percentage, is at least the threshold.  The rate is
  computed in floating point as \<open>errors / requests * 100\<close>: with 29 errors in 50
  requests the quotient rounds to a float below 0.58, the product to a float below 58,
  and with the threshold 58 the key is not skipped although its error rate is exactly
  58 percent.
\<close>

theorem should_skip_key_at_exact_threshold:
  "key_stats (record_requests (replicate 29 (''k'', False, Some ''RATE_LIMIT'', 0) @ replicate 21 (''k'', True, None, 0))
               (APIKeyRotationManager_init ''round_robin'' [''k''] 58)) ''k''
     = Some \<lparr>requests = 50, errors = 29, last_error = Some ''RATE_LIMIT'', last_error_time = Some 0\<rparr>
   \<and> (58 :: rat) \<le> 29 / 50 * 100
   \<and> \<not> should_skip_key ''k''
         (record_requests (replicate 29 (''k'', False, Some ''RATE_LIMIT'', 0) @ replicate 21 (''k'', True, None, 0))
            (APIKeyRotationManager_init ''round_robin'' [''k''] 58))"
  by code_simp


section \<open>Properties of the retry executor\<close>

lemma sleep_nonneg: "0 \<le> d \<Longrightarrow> sleep d tr = Inr (tr\<lparr>sleeps := sleeps tr @ [d]\<rparr>)"
  by (simp add: sleep_def)

lemma delay_nonneg: "0 \<le> base_delay \<Longrightarrow> 0 \<le> base_delay * 2 ^ a" for base_delay :: int
  by simp

lemma attempt_once_retryable:
  assumes "0 \<le> base_delay" and "retryable (func a)"
  shows "\<exists>res'. attempt_once func max_retries base_delay a res tr =
           (Next res',
            \<lparr>calls = calls tr + 1,
             sleeps = sleeps tr @ (if int a < max_retries - 1 then [base_delay * 2 ^ a] else [])\<rparr>)"
proof (cases "func a")
  case Raises
  then show ?thesis
    using assms(1)
    by (simp add: attempt_once_def except_handler_def sleep_nonneg)
next
  case (Returns r)
  then have r: "\<not> is_success r" "\<not> is_terminal r" using assms(2) by (simp_all add: retryable_def)
  show ?thesis
  proof (cases "error_text r")
    case (Inl e)
    then show ?thesis
      using assms(1) Returns r
      by (simp add: attempt_once_def except_handler_def sleep_nonneg)
  next
    case (Inr e)
    then have "\<not> (contains ''Invalid'' e \<or> contains ''API key'' e)"
      using r by (simp add: is_terminal_def)
    then show ?thesis
      using assms(1) Returns r Inr
      by (simp add: attempt_once_def sleep_nonneg)
  qed
qed

lemma attempt_once_terminal:
  assumes "func a = Returns r" and "is_terminal r"
  shows "attempt_once func max_retries base_delay a res tr = (Done r, tr\<lparr>calls := calls tr + 1\<rparr>)"
proof -
  from assms(2) obtain e where "\<not> is_success r" "error_text r = Inr e"
    "contains ''Invalid'' e \<or> contains ''API key'' e"
    by (auto simp: is_terminal_def split: sum.splits)
  then show ?thesis using assms(1) by (simp add: attempt_once_def)
qed

lemma retry_loop_retryable:
  assumes "0 \<le> base_delay" and "\<forall>a \<in> set as. retryable (func a)"
  shows "\<exists>res'. retry_loop func max_retries base_delay (as @ rest) res tr =
           retry_loop func max_retries base_delay rest res'
             \<lparr>calls = calls tr + length as,
              sleeps = sleeps tr @ map (\<lambda>k. base_delay * 2 ^ k) (filter (\<lambda>a. int a < max_retries - 1) as)\<rparr>"
  using assms(2)
proof (induction as arbitrary: res tr)
  case Nil
  show ?case by (cases tr) (auto intro: exI [of _ res])
next
  case (Cons a as)
  then have ra: "retryable (func a)" by simp
  from attempt_once_retryable [where func = func and a = a and base_delay = base_delay
      and max_retries = max_retries and res = res and tr = tr, OF assms(1) ra]
  obtain res1 where step: "attempt_once func max_retries base_delay a res tr =
           (Next res1,
            \<lparr>calls = calls tr + 1,
             sleeps = sleeps tr @ (if int a < max_retries - 1 then [base_delay * 2 ^ a] else [])\<rparr>)"
    by blast
  let ?tr1 = "\<lparr>calls = calls tr + 1,
             sleeps = sleeps tr @ (if int a < max_retries - 1 then [base_delay * 2 ^ a] else [])\<rparr>"
  from Cons.prems have rest: "\<forall>a \<in> set as. retryable (func a)" by simp
  from Cons.IH [where res = res1 and tr = ?tr1, OF rest]
  obtain res2 where ih: "retry_loop func max_retries base_delay (as @ rest) res1 ?tr1 =
           retry_loop func max_retries base_delay rest res2
             \<lparr>calls = calls ?tr1 + length as,
              sleeps = sleeps ?tr1 @ map (\<lambda>k. base_delay * 2 ^ k) (filter (\<lambda>a. int a < max_retries - 1) as)\<rparr>"
    by blast
  show ?case
    using ih by (intro exI [of _ res2]) (cases "int a < max_retries - 1"; simp add: step)
qed

lemma attempt_once_retryable_result:
  assumes "0 \<le> base_delay" and "retryable (func a)"
  shows "attempt_once func max_retries base_delay a res tr =
           (Next (case func a of Raises \<Rightarrow> res | Returns r \<Rightarrow> Some r),
            \<lparr>calls = calls tr + 1,
             sleeps = sleeps tr @ (if int a < max_retries - 1 then [base_delay * 2 ^ a] else [])\<rparr>)"
proof (cases "func a")
  case Raises
  then show ?thesis
    using assms(1)
    by (simp add: attempt_once_def except_handler_def sleep_nonneg)
next
  case (Returns r)
  then have r: "\<not> is_success r" "\<not> is_terminal r" using assms(2) by (simp_all add: retryable_def)
  show ?thesis
  proof (cases "error_text r")
    case (Inl e)
    then show ?thesis
      using assms(1) Returns r
      by (simp add: attempt_once_def except_handler_def sleep_nonneg)
  next
    case (Inr e)
    then have "\<not> (contains ''Invalid'' e \<or> contains ''API key'' e)"
      using r by (simp add: is_terminal_def)
    then show ?thesis
      using assms(1) Returns r Inr
      by (simp add: attempt_once_def sleep_nonneg)
  qed
qed

lemma retry_loop_last_returned:
  assumes "0 \<le> base_delay" and "\<forall>a \<in> set as. retryable (func a)"
  shows "fst (retry_loop func max_retries base_delay as res tr) =
           (case last_returned func as res of None \<Rightarrow> Inl UnboundLocalError | Some r \<Rightarrow> Inr r)"
  using assms(2)
proof (induction as arbitrary: res tr)
  case Nil
  show ?case by simp
next
  case (Cons a as)
  then have ra: "retryable (func a)" by simp
  from Cons.prems have rest: "\<forall>a \<in> set as. retryable (func a)" by simp
  note step = attempt_once_retryable_result [where func = func and a = a
      and base_delay = base_delay and max_retries = max_retries, OF assms(1) ra]
  show ?case
    by (simp add: step Cons.IH [OF rest])
qed

lemma retry_all_fail_result:
  assumes "0 \<le> base_delay" and "\<forall>j<nat max_retries. retryable (func j)"
  shows "fst (retry_with_backoff func max_retries base_delay) =
           (case last_returned func [0..<nat max_retries] None of
              None \<Rightarrow> Inl UnboundLocalError
            | Some r \<Rightarrow> Inr r)"
  unfolding retry_with_backoff_def
  by (rule retry_loop_last_returned [OF assms(1)]) (use assms(2) in simp)

lemma filter_upt_below:
  "i \<le> nat max_retries - 1 \<Longrightarrow> filter (\<lambda>a. int a < max_retries - 1) [0..<i] = [0..<i]"
  by (rule filter_True) auto

lemma filter_upt_all:
  "filter (\<lambda>a. int a < max_retries - 1) [0..<nat max_retries] = [0..<nat max_retries - 1]"
proof -
  have "[0..<nat max_retries] = [0..<nat max_retries - 1] @ [nat max_retries - 1..<nat max_retries]"
  proof (cases "nat max_retries")
    case 0
    then show ?thesis by simp
  next
    case (Suc n)
    then show ?thesis by simp
  qed
  moreover have "filter (\<lambda>a. int a < max_retries - 1) [0..<nat max_retries - 1] = [0..<nat max_retries - 1]"
    by (rule filter_True) auto
  moreover have "filter (\<lambda>a. int a < max_retries - 1) [nat max_retries - 1..<nat max_retries] = []"
    by (rule filter_False) auto
  ultimately show ?thesis by simp
qed


text \<open>
  C3.  With a non-negative base delay: if the attempts before index \<open>i\<close> all fail in a
  retryable way and attempt \<open>i\<close> returns a failing result whose error text holds
  \<open>Invalid\<close> or \<open>API key\<close>, that result is returned at once, after \<open>i + 1\<close> calls, whatever
  \<open>max_retries\<close> leaves; the sleeps made so far are \<open>base_delay * 2^k\<close> for \<open>k < i\<close>.
  If every attempt fails in a retryable way, all \<open>max_retries\<close> calls are made and the
  sleeps are \<open>base_delay * 2^k\<close> for \<open>k < max_retries - 1\<close>, in this order.
\<close>

theorem retry_schedule:
  assumes "0 \<le> base_delay"
  shows "(i < nat max_retries \<and> (\<forall>j<i. retryable (func j)) \<and> func i = Returns r \<and> is_terminal r
            \<longrightarrow> retry_with_backoff func max_retries base_delay =
                  (Inr r, \<lparr>calls = i + 1, sleeps = map (\<lambda>k. base_delay * 2 ^ k) [0..<i]\<rparr>))
       \<and> ((\<forall>j<nat max_retries. retryable (func j))
            \<longrightarrow> snd (retry_with_backoff func max_retries base_delay) =
                  \<lparr>calls = nat max_retries,
                   sleeps = map (\<lambda>k. base_delay * 2 ^ k) [0..<nat max_retries - 1]\<rparr>)"
proof (intro conjI impI)
  assume a: "i < nat max_retries \<and> (\<forall>j<i. retryable (func j)) \<and> func i = Returns r \<and> is_terminal r"
  let ?tr0 = "\<lparr>calls = 0, sleeps = []\<rparr>"
  have split: "[0..<nat max_retries] = [0..<i] @ (i # [Suc i..<nat max_retries])"
  proof -
    have i: "i < nat max_retries" using a by simp
    have "[0..<i + (nat max_retries - i)] = [0..<i] @ [i..<i + (nat max_retries - i)]"
      by (rule upt_add_eq_append) simp
    then have "[0..<nat max_retries] = [0..<i] @ [i..<nat max_retries]" using i by simp
    then show ?thesis using i by (simp add: upt_conv_Cons)
  qed
  have pre: "\<forall>a \<in> set [0..<i]. retryable (func a)" using a by simp
  from retry_loop_retryable [where func = func and as = "[0..<i]" and base_delay = base_delay
      and max_retries = max_retries and rest = "i # [Suc i..<nat max_retries]"
      and res = None and tr = ?tr0, OF assms pre]
  obtain res' where run: "retry_loop func max_retries base_delay ([0..<i] @ (i # [Suc i..<nat max_retries])) None ?tr0 =
      retry_loop func max_retries base_delay (i # [Suc i..<nat max_retries]) res'
        \<lparr>calls = calls ?tr0 + length [0..<i],
         sleeps = sleeps ?tr0 @ map (\<lambda>k. base_delay * 2 ^ k) (filter (\<lambda>a. int a < max_retries - 1) [0..<i])\<rparr>"
    by blast
  have f: "filter (\<lambda>a. int a < max_retries - 1) [0..<i] = [0..<i]"
    using a by (intro filter_upt_below) linarith
  have fin: "attempt_once func max_retries base_delay i res' tr = (Done r, tr\<lparr>calls := calls tr + 1\<rparr>)" for tr
    using a by (intro attempt_once_terminal) simp_all
  show "retry_with_backoff func max_retries base_delay =
          (Inr r, \<lparr>calls = i + 1, sleeps = map (\<lambda>k. base_delay * 2 ^ k) [0..<i]\<rparr>)"
    unfolding retry_with_backoff_def split run f
    by (simp add: fin)
next
  assume a: "\<forall>j<nat max_retries. retryable (func j)"
  let ?tr0 = "\<lparr>calls = 0, sleeps = []\<rparr>"
  have pre: "\<forall>a \<in> set [0..<nat max_retries]. retryable (func a)" using a by simp
  from retry_loop_retryable [where func = func and as = "[0..<nat max_retries]" and base_delay = base_delay
      and max_retries = max_retries and rest = "[]" and res = None and tr = ?tr0, OF assms pre]
  obtain res' where run: "retry_loop func max_retries base_delay ([0..<nat max_retries] @ []) None ?tr0 =
      retry_loop func max_retries base_delay [] res'
        \<lparr>calls = calls ?tr0 + length [0..<nat max_retries],
         sleeps = sleeps ?tr0 @ map (\<lambda>k. base_delay * 2 ^ k)
                    (filter (\<lambda>a. int a < max_retries - 1) [0..<nat max_retries])\<rparr>"
    by blast
  show "snd (retry_with_backoff func max_retries base_delay) =
          \<lparr>calls = nat max_retries,
           sleeps = map (\<lambda>k. base_delay * 2 ^ k) [0..<nat max_retries - 1]\<rparr>"
    using run unfolding retry_with_backoff_def filter_upt_all by simp
qed


theorem retry_schedule_witness:
  "retry_with_backoff
     (\<lambda>i. if i < 1 then Returns [(''channel_id'', PNone), (''error'', PStr ''Search timeout'')]
          else Returns [(''channel_id'', PNone), (''error'', PStr ''Invalid API key'')]) 3 1
     = (Inr [(''channel_id'', PNone), (''error'', PStr ''Invalid API key'')],
        \<lparr>calls = 2, sleeps = [1]\<rparr>)
   \<and> snd (retry_with_backoff
            (\<lambda>i. Returns [(''channel_id'', PNone), (''error'', PStr ''Search timeout'')]) 3 1)
     = \<lparr>calls = 3, sleeps = [1, 2]\<rparr>"
proof -
  let ?t = "[(''channel_id'', PNone), (''error'', PStr ''Search timeout'')]"
  let ?r = "[(''channel_id'', PNone), (''error'', PStr ''Invalid API key'')]"
  let ?f = "\<lambda>i::nat. if i < 1 then Returns ?t else Returns ?r"
  let ?g = "\<lambda>i::nat. Returns ?t"
  have b: "(0::int) \<le> 1" by simp
  have rt: "retryable (Returns ?t)" by code_simp
  have tr: "is_terminal ?r" by code_simp
  have h1: "1 < nat 3 \<and> (\<forall>j<1. retryable (?f j)) \<and> ?f 1 = Returns ?r \<and> is_terminal ?r"
    using rt tr by simp
  have h2: "\<forall>j<nat 3. retryable (?g j)" using rt by simp
  have m1: "map (\<lambda>k. (1::int) * 2 ^ k) [0..<1] = [1]" by simp
  have m2: "map (\<lambda>k. (1::int) * 2 ^ k) [0..<nat 3 - 1] = [1, 2]" by (simp add: upt_rec)
  have a1: "retry_with_backoff ?f 3 1 = (Inr ?r, \<lparr>calls = 1 + 1, sleeps = map (\<lambda>k. 1 * 2 ^ k) [0..<1]\<rparr>)"
    using retry_schedule [OF b, of 1 3 ?f ?r] h1 by blast
  have a2: "snd (retry_with_backoff ?g 3 1) =
      \<lparr>calls = nat 3, sleeps = map (\<lambda>k. 1 * 2 ^ k) [0..<nat 3 - 1]\<rparr>"
    using retry_schedule [OF b, of _ 3 ?g] h2 by blast
  show ?thesis using a1 a2 unfolding m1 m2 by simp
qed

text \<open>
  C2.  The executor is meant never to raise.  When every attempt raises, the local
  variable \<open>result\<close> is never bound and the final \<open>return result\<close> raises
  UnboundLocalError: with three attempts and base delay 1 the three calls are made,
  the two sleeps (1 and 2 seconds) are made, and the exception leaves the function.
\<close>

theorem retry_all_attempts_raise:
  "retry_with_backoff (\<lambda>i. Raises) 3 1 = (Inl UnboundLocalError, \<lparr>calls = 3, sleeps = [1, 2]\<rparr>)"
  by code_simp


section \<open>Properties of the post-processor\<close>

lemma fl_half: "fl (5 / 10) = 1 / 2"
  by code_simp

lemma fmul_half_bounds:
  assumes "0 \<le> x" and "x \<le> 1"
  shows "0 \<le> fmul x (fl (5 / 10)) \<and> fmul x (fl (5 / 10)) \<le> 1 / 2"
proof -
  have a: "0 \<le> x * (1 / 2)" using assms by simp
  have b: "x * (1 / 2) \<le> 1 / 2" using assms by simp
  show ?thesis
    unfolding fmul_def fl_half using fl_nonneg [OF a] fl_le_half [OF a b] by simp
qed

lemma py_round2_bounds:
  assumes "0 \<le> w" and "w \<le> 1"
  shows "0 \<le> py_round2 w \<and> py_round2 w \<le> 1"
proof -
  have lo: "of_int 0 \<le> w * 100" using assms by simp
  have hi: "w * 100 \<le> of_int 100" using assms by simp
  have n0: "0 \<le> round_half_even (w * 100)" using round_half_even_ge [OF lo] .
  have n1: "round_half_even (w * 100) \<le> 100" using round_half_even_le [OF hi] .
  let ?q = "of_int (round_half_even (w * 100)) / 100 :: rat"
  have q0: "0 \<le> ?q" using n0 by simp
  have q1: "?q \<le> 1" using n1 by simp
  show ?thesis
    unfolding py_round2_def using fl_nonneg [OF q0] fl_le_one [OF q0 q1] by simp
qed

lemma completeness_score_bounds:
  "0 \<le> completeness_score rt raw_text \<and> completeness_score rt raw_text \<le> 1"
proof -
  have fb: "0 \<le> fl (3 / 10) \<and> fl (3 / 10) \<le> 1"
    using fl_nonneg [of "3 / 10"] fl_le_one [of "3 / 10"] by simp
  have ob: "0 \<le> min (int_truediv (int n) 10) 1 \<and> min (int_truediv (int n) 10) 1 \<le> 1" for n
    using fl_nonneg [of "of_int (int n) / of_int 10"] by (simp add: int_truediv_def)
  show ?thesis
  proof (cases "json_loads rt raw_text")
    case None
    then show ?thesis using fb by (simp add: completeness_score_def)
  next
    case (Some v)
    then show ?thesis using fb ob by (cases v) (simp_all add: completeness_score_def)
  qed
qed

lemma lookup_reliability_bounds:
  assumes "\<forall>(d, s) \<in> set tbl. 0 \<le> s \<and> s \<le> 1"
  shows "0 \<le> lookup_reliability tbl src \<and> lookup_reliability tbl src \<le> 1"
  using assms
proof (induction tbl)
  case Nil
  show ?case using fl_nonneg [of "5 / 10"] fl_le_one [of "5 / 10"] by simp
next
  case (Cons e tbl)
  obtain d s where e: "e = (d, s)" by (cases e)
  show ?case using Cons unfolding e by simp
qed

lemma source_reliability_bounds: "\<forall>(d, s) \<in> set source_reliability. 0 \<le> s \<and> s \<le> 1"
  by (simp add: source_reliability_def fl_nonneg fl_le_one)

lemma reliability_score_bounds:
  "0 \<le> reliability_score source \<and> reliability_score source \<le> 1"
  unfolding reliability_score_def
  by (rule lookup_reliability_bounds [OF source_reliability_bounds])

lemma calculate_weight_bounds:
  "0 \<le> calculate_weight rt raw_text source \<and> calculate_weight rt raw_text source \<le> 1"
proof -
  let ?c = "fmul (completeness_score rt raw_text) (fl (5 / 10))"
  let ?r = "fmul (reliability_score source) (fl (5 / 10))"
  have c: "0 \<le> ?c \<and> ?c \<le> 1 / 2"
    using completeness_score_bounds [of rt raw_text] by (intro fmul_half_bounds) simp_all
  have r: "0 \<le> ?r \<and> ?r \<le> 1 / 2"
    using reliability_score_bounds [of source] by (intro fmul_half_bounds) simp_all
  have s0: "0 \<le> ?c + ?r" using c r by simp
  have s1: "?c + ?r \<le> 1" using c r by simp
  have "0 \<le> fadd ?c ?r \<and> fadd ?c ?r \<le> 1"
    unfolding fadd_def using fl_nonneg [OF s0] fl_le_one [OF s0 s1] by simp
  then show ?thesis
    unfolding calculate_weight_def by (intro py_round2_bounds) simp_all
qed

lemma lookup_reliability_default:
  assumes "\<forall>(d, s) \<in> set tbl. \<not> contains d src"
  shows "lookup_reliability tbl src = fl (5 / 10)"
  using assms
proof (induction tbl)
  case Nil
  show ?case by simp
next
  case (Cons e tbl)
  obtain d s where e: "e = (d, s)" by (cases e)
  show ?case using Cons unfolding e by simp
qed


lemma present_Some: "present v \<longleftrightarrow> (\<exists>s. v = Some s \<and> s \<noteq> [])"
  by (cases v) (simp_all add: present_def)

lemma enrichment_update_Some:
  assumes "enrichment_update rt now strec = Inr (Some req)"
  shows "\<exists>ev d img cid sk raw src.
           eventName strec = Some ev \<and> (ev = ''INSERT'' \<or> ev = ''MODIFY'')
           \<and> dynamodb strec = Some d \<and> NewImage d = Some img
           \<and> get_S img ''celebrity_id'' = Some cid \<and> cid \<noteq> []
           \<and> get_S img ''source_type#timestamp'' = Some sk \<and> sk \<noteq> []
           \<and> get_S img ''raw_text'' = Some raw \<and> raw \<noteq> []
           \<and> get_S img ''source'' = Some src \<and> src \<noteq> []
           \<and> req = enrichment_request rt now cid sk raw src
           \<and> (\<forall>t. enrichment_update rt t strec = Inr (Some (enrichment_request rt t cid sk raw src)))"
proof -
  from assms obtain ev where ev: "eventName strec = Some ev"
    by (cases "eventName strec") (simp_all add: enrichment_update_def)
  from assms ev have evs: "ev = ''INSERT'' \<or> ev = ''MODIFY''"
    by (cases "ev = ''INSERT'' \<or> ev = ''MODIFY''") (auto simp: enrichment_update_def)
  from assms ev evs obtain d where d: "dynamodb strec = Some d"
    by (cases "dynamodb strec") (auto simp: enrichment_update_def)
  from assms ev evs d obtain img where img: "NewImage d = Some img"
    by (cases "NewImage d") (auto simp: enrichment_update_def)
  let ?p = "present (get_S img ''celebrity_id'') \<and> present (get_S img ''source_type#timestamp'')
            \<and> present (get_S img ''raw_text'') \<and> present (get_S img ''source'')"
  have p: ?p
  proof (rule ccontr)
    assume "\<not> ?p"
    then have "enrichment_update rt now strec = Inr None"
      using ev evs d img by (auto simp: enrichment_update_def Let_def)
    then show False using assms by simp
  qed
  then obtain cid sk raw src where
    f: "get_S img ''celebrity_id'' = Some cid" "cid \<noteq> []"
       "get_S img ''source_type#timestamp'' = Some sk" "sk \<noteq> []"
       "get_S img ''raw_text'' = Some raw" "raw \<noteq> []"
       "get_S img ''source'' = Some src" "src \<noteq> []"
    unfolding present_Some by blast
  have all: "enrichment_update rt t strec = Inr (Some (enrichment_request rt t cid sk raw src))" for t
    using ev evs d img f
    by (auto simp: enrichment_update_def Let_def present_def)
  then have "req = enrichment_request rt now cid sk raw src" using assms by simp
  then show ?thesis using ev evs d img f all by blast
qed

lemma enrichment_update_skip_any_time:
  assumes "enrichment_update rt now strec = Inr None"
  shows "enrichment_update rt t strec = Inr None"
  using assms
  by (auto simp: enrichment_update_def Let_def split: option.splits if_splits)

lemma enrichment_update_error_any_time:
  assumes "enrichment_update rt now strec = Inl e"
  shows "enrichment_update rt t strec = Inl e"
  using assms
  by (auto simp: enrichment_update_def Let_def split: option.splits if_splits)

lemma update_item_enrichment:
  "update_item (enrichment_request rt now cid sk raw src) tb =
     Inr (tb\<lparr>items := (items tb)((cid, sk) \<mapsto>
                (base_item tb (cid, sk))
                  (''weight'' \<mapsto> FNum (calculate_weight rt raw src),
                   ''sentiment'' \<mapsto> FStr (calculate_sentiment rt raw),
                   ''updated_at'' \<mapsto> FStr (now @ ''Z''))),
             update_log := update_log tb @ [enrichment_request rt now cid sk raw src]\<rparr>)"
  by (simp add: update_item_def enrichment_request_def resolve_name_def Let_def)


lemma process_stream_record_update:
  assumes "enrichment_update rt now strec = Inr (Some (enrichment_request rt now cid sk raw src))"
  shows "process_stream_record rt now strec tb =
     (True, tb\<lparr>items := (items tb)((cid, sk) \<mapsto>
                (base_item tb (cid, sk))
                  (''weight'' \<mapsto> FNum (calculate_weight rt raw src),
                   ''sentiment'' \<mapsto> FStr (calculate_sentiment rt raw),
                   ''updated_at'' \<mapsto> FStr (now @ ''Z''))),
             update_log := update_log tb @ [enrichment_request rt now cid sk raw src]\<rparr>)"
  by (simp add: process_stream_record_def assms update_item_enrichment)

lemma process_stream_record_no_update:
  assumes "\<forall>req. enrichment_update rt now strec \<noteq> Inr (Some req)"
  shows "snd (process_stream_record rt now strec tb) = tb"
proof (cases "enrichment_update rt now strec")
  case (Inl e)
  then show ?thesis by (simp add: process_stream_record_def)
next
  case (Inr r)
  then have "r = None" using assms by (cases r) simp_all
  then show ?thesis using Inr by (simp add: process_stream_record_def)
qed

text \<open>
  C5 (as amended).  For every payload and source the weight lies in \<open>[0, 1]\<close>.  When
  the payload parses as a JSON object, the weight is
  \<open>round(0.5 * min(n / 10, 1) + 0.5 * reliability, 2)\<close> for its \<open>n\<close> non-empty fields;
  when it does not parse, or parses as a JSON value that is not an object, the
  completeness is 0.3.  The reliability is 0.5 when no domain of the table occurs in
  the lower-cased source.
\<close>

theorem calculate_weight_formula:
  "(json_loads rt raw_text = Some (JObj flds) \<longrightarrow>
      calculate_weight rt raw_text source = spec_weight (field_count flds) (reliability_score source))
   \<and> ((\<forall>fs. json_loads rt raw_text \<noteq> Some (JObj fs)) \<longrightarrow>
        completeness_score rt raw_text = fl (3 / 10))
   \<and> ((\<forall>(d, s) \<in> set source_reliability. \<not> contains d (lower source)) \<longrightarrow>
        reliability_score source = fl (5 / 10))
   \<and> 0 \<le> calculate_weight rt raw_text source \<and> calculate_weight rt raw_text source \<le> 1"
proof -
  have a: "json_loads rt raw_text = Some (JObj flds) \<longrightarrow>
      calculate_weight rt raw_text source = spec_weight (field_count flds) (reliability_score source)"
    by (simp add: calculate_weight_def spec_weight_def completeness_score_def fmul_def mult.commute)
  have b: "(\<forall>fs. json_loads rt raw_text \<noteq> Some (JObj fs)) \<longrightarrow>
        completeness_score rt raw_text = fl (3 / 10)"
  proof
    assume n: "\<forall>fs. json_loads rt raw_text \<noteq> Some (JObj fs)"
    show "completeness_score rt raw_text = fl (3 / 10)"
    proof (cases "json_loads rt raw_text")
      case None
      then show ?thesis by (simp add: completeness_score_def)
    next
      case (Some v)
      then show ?thesis using n by (cases v) (simp_all add: completeness_score_def)
    qed
  qed
  have c: "(\<forall>(d, s) \<in> set source_reliability. \<not> contains d (lower source)) \<longrightarrow>
        reliability_score source = fl (5 / 10)"
    unfolding reliability_score_def using lookup_reliability_default by blast
  from a b c calculate_weight_bounds [of rt raw_text source] show ?thesis by blast
qed

theorem calculate_weight_formula_witness:
  "calculate_weight example_runtime ''{\"title\":\"X\"}'' ''https://example.org''
     = spec_weight 1 (fl (5 / 10))
   \<and> completeness_score example_runtime ''not json'' = fl (3 / 10)
   \<and> calculate_weight example_runtime ''{\"title\":\"X\"}'' ''https://example.org'' \<le> 1"
proof -
  have j: "json_loads example_runtime ''{\"title\":\"X\"}'' = Some (JObj [(''title'', JStr ''X'')])"
    by (simp add: example_runtime_def)
  have n: "\<forall>fs. json_loads example_runtime ''not json'' \<noteq> Some (JObj fs)"
    by (simp add: example_runtime_def)
  have u: "\<forall>(d, s) \<in> set source_reliability. \<not> contains d (lower ''https://example.org'')"
    by code_simp
  have fc: "field_count [(''title'', JStr ''X'')] = 1"
    by (simp add: field_count_def)
  have 1: "calculate_weight example_runtime ''{\"title\":\"X\"}'' ''https://example.org''
     = spec_weight 1 (fl (5 / 10))"
    using calculate_weight_formula [of example_runtime "''{\"title\":\"X\"}''" "[(''title'', JStr ''X'')]"
        "''https://example.org''"] j u fc by simp
  have 2: "completeness_score example_runtime ''not json'' = fl (3 / 10)"
    using calculate_weight_formula [of example_runtime "''not json''" _ "''x''"] n by blast
  have 3: "calculate_weight example_runtime ''{\"title\":\"X\"}'' ''https://example.org'' \<le> 1"
    using calculate_weight_formula [of example_runtime "''{\"title\":\"X\"}''" _ "''https://example.org''"]
    by blast
  from 1 2 3 show ?thesis by blast
qed

text \<open>
  The payload \<open>[]\<close> parses as JSON and has no field, yet its weight is not the value of
  the formula at \<open>n = 0\<close>: the completeness is the fallback 0.3.
\<close>

theorem calculate_weight_json_array:
  "json_loads example_runtime ''[]'' = Some (JArr [])
   \<and> calculate_weight example_runtime ''[]'' ''https://example.org''
       \<noteq> spec_weight (non_empty_field_count (JArr [])) (reliability_score ''https://example.org'')"
  by code_simp


text \<open>
  C7.  Whatever the notification, after \<open>process_stream_record\<close> every item that was
  in the table is still there and agrees with its old value on every attribute other
  than \<open>weight\<close>, \<open>sentiment\<close> and \<open>updated_at\<close> (so \<open>raw_text\<close> and all other fields
  are unchanged), and the item under any key other than the notification's
  \<open>(celebrity_id, source_type#timestamp)\<close> is not touched at all.
\<close>

theorem enrichment_frame:
  assumes "process_stream_record rt now strec tb = (ok, tb')"
  shows "(\<forall>k it. items tb k = Some it \<longrightarrow>
            (\<exists>it'. items tb' k = Some it'
                \<and> (\<forall>a. a \<notin> {''weight'', ''sentiment'', ''updated_at''} \<longrightarrow> it' a = it a)))
       \<and> (\<forall>k. (\<forall>d img. dynamodb strec = Some d \<and> NewImage d = Some img \<longrightarrow>
                    \<not> (get_S img ''celebrity_id'' = Some (fst k)
                       \<and> get_S img ''source_type#timestamp'' = Some (snd k)))
              \<longrightarrow> items tb' k = items tb k)"
proof (cases "\<exists>req. enrichment_update rt now strec = Inr (Some req)")
  case False
  then have "snd (process_stream_record rt now strec tb) = tb"
    by (intro process_stream_record_no_update) blast
  then have "tb' = tb" using assms by simp
  then show ?thesis by simp
next
  case True
  then obtain req where req: "enrichment_update rt now strec = Inr (Some req)" by blast
  from enrichment_update_Some [OF req]
  obtain d img cid sk raw src where
    d: "dynamodb strec = Some d" "NewImage d = Some img"
    and k: "get_S img ''celebrity_id'' = Some cid" "get_S img ''source_type#timestamp'' = Some sk"
    and r: "req = enrichment_request rt now cid sk raw src"
    by blast
  let ?new = "(base_item tb (cid, sk))
                  (''weight'' \<mapsto> FNum (calculate_weight rt raw src),
                   ''sentiment'' \<mapsto> FStr (calculate_sentiment rt raw),
                   ''updated_at'' \<mapsto> FStr (now @ ''Z''))"
  have "process_stream_record rt now strec tb =
     (True, tb\<lparr>items := (items tb)((cid, sk) \<mapsto> ?new),
             update_log := update_log tb @ [enrichment_request rt now cid sk raw src]\<rparr>)"
    using req unfolding r by (rule process_stream_record_update)
  then have its: "items tb' = (items tb)((cid, sk) \<mapsto> ?new)"
    using assms by auto
  have one: "\<exists>it'. items tb' k = Some it'
                \<and> (\<forall>a. a \<notin> {''weight'', ''sentiment'', ''updated_at''} \<longrightarrow> it' a = it a)"
    if "items tb k = Some it" for k it
  proof (cases "k = (cid, sk)")
    case True
    then have "base_item tb (cid, sk) = it" using that by (simp add: base_item_def)
    then have "items tb' k = Some (it(''weight'' \<mapsto> FNum (calculate_weight rt raw src),
                   ''sentiment'' \<mapsto> FStr (calculate_sentiment rt raw),
                   ''updated_at'' \<mapsto> FStr (now @ ''Z'')))"
      using True its by simp
    then show ?thesis by simp
  next
    case False
    then show ?thesis using that its by simp
  qed
  have two: "items tb' k = items tb k"
    if "\<forall>d img. dynamodb strec = Some d \<and> NewImage d = Some img \<longrightarrow>
                    \<not> (get_S img ''celebrity_id'' = Some (fst k)
                       \<and> get_S img ''source_type#timestamp'' = Some (snd k))" for k
  proof -
    have "k \<noteq> (cid, sk)" using that d k by auto
    then show ?thesis using its by simp
  qed
  from one two show ?thesis by blast
qed


theorem enrichment_frame_witness:
  "stored (snd (process_stream_record example_runtime ''2025-11-07T17:20:00''
                  (example_record ''not json'') example_table))
     (''celeb_001'', ''youtube#1'') ''raw_text'' = Some (FStr ''not json'')
   \<and> stored (snd (process_stream_record example_runtime ''2025-11-07T17:20:00''
                  (example_record ''not json'') example_table))
     (''celeb_001'', ''youtube#1'') ''source'' = Some (FStr ''https://youtube.com/channel/x'')"
proof -
  let ?p = "process_stream_record example_runtime ''2025-11-07T17:20:00''
              (example_record ''not json'') example_table"
  let ?it = "[''celebrity_id'' \<mapsto> FStr ''celeb_001'',
              ''source_type#timestamp'' \<mapsto> FStr ''youtube#1'',
              ''raw_text'' \<mapsto> FStr ''not json'',
              ''source'' \<mapsto> FStr ''https://youtube.com/channel/x'']"
  have eq: "?p = (fst ?p, snd ?p)" by simp
  have it: "items example_table (''celeb_001'', ''youtube#1'') = Some ?it"
    by (simp add: example_table_def)
  from enrichment_frame [OF eq] it
  obtain it' where it': "items (snd ?p) (''celeb_001'', ''youtube#1'') = Some it'"
    and same: "\<forall>a. a \<notin> {''weight'', ''sentiment'', ''updated_at''} \<longrightarrow> it' a = ?it a"
    by blast
  have "it' ''raw_text'' = ?it ''raw_text''" using same by simp
  moreover have "it' ''source'' = ?it ''source''" using same by simp
  ultimately show ?thesis using it' by (simp add: stored_def)
qed

lemma stored_update:
  "stored (tb\<lparr>items := (items tb)(k0 \<mapsto> it), update_log := l\<rparr>) k a =
     (if k = k0 then it a else stored tb k a)"
  by (simp add: stored_def)

text \<open>
  C4.  With the TextBlob path selected, processing the same notification a second
  time (at any later clock reading) gives the same Boolean result, leaves every stored
  attribute other than \<open>updated_at\<close> as the first processing left it, in particular
  \<open>weight\<close> and \<open>sentiment\<close>, and issues an update with the same key, the same
  expression and the same \<open>:weight\<close> and \<open>:sentiment\<close> values (or none, when the first
  processing issued none).
\<close>

theorem enrichment_idempotent:
  assumes "\<not> USE_AWS_COMPREHEND rt"
    and "process_stream_record rt t1 strec tb = (ok1, tb1)"
    and "process_stream_record rt t2 strec tb1 = (ok2, tb2)"
  shows "ok2 = ok1
       \<and> (\<forall>k a. a \<noteq> ''updated_at'' \<longrightarrow> stored tb2 k a = stored tb1 k a)
       \<and> ((update_log tb1 = update_log tb \<and> update_log tb2 = update_log tb1)
          \<or> (\<exists>r1 r2. update_log tb1 = update_log tb @ [r1] \<and> update_log tb2 = update_log tb1 @ [r2]
                \<and> Key r2 = Key r1 \<and> UpdateExpression r2 = UpdateExpression r1
                \<and> ExpressionAttributeNames r2 = ExpressionAttributeNames r1
                \<and> map_of (ExpressionAttributeValues r2) '':weight''
                    = map_of (ExpressionAttributeValues r1) '':weight''
                \<and> map_of (ExpressionAttributeValues r2) '':sentiment''
                    = map_of (ExpressionAttributeValues r1) '':sentiment''))"
proof (cases "\<exists>req. enrichment_update rt t1 strec = Inr (Some req)")
  case False
  have no2: "\<forall>req. enrichment_update rt t2 strec \<noteq> Inr (Some req)"
  proof (intro allI notI)
    fix req assume "enrichment_update rt t2 strec = Inr (Some req)"
    from enrichment_update_Some [OF this] have "\<exists>r. enrichment_update rt t1 strec = Inr (Some r)"
      by blast
    then show False using False by blast
  qed
  have same: "enrichment_update rt t2 strec = enrichment_update rt t1 strec"
  proof (cases "enrichment_update rt t1 strec")
    case (Inl e)
    then show ?thesis using enrichment_update_error_any_time [OF Inl, of t2] by simp
  next
    case (Inr r)
    then have "r = None" using False by (cases r) simp_all
    then show ?thesis using enrichment_update_skip_any_time [of rt t1 strec t2] Inr by simp
  qed
  have 1: "tb1 = tb"
    using process_stream_record_no_update [of rt t1 strec tb] False assms(2) by simp
  have 2: "tb2 = tb1"
    using process_stream_record_no_update [OF no2, of tb1] assms(3) by simp
  have "fst (process_stream_record rt t2 strec tb1) = fst (process_stream_record rt t1 strec tb)"
    using False no2 same
    by (cases "enrichment_update rt t1 strec") (auto simp: process_stream_record_def split: option.splits)
  then have 3: "ok2 = ok1" using assms(2,3) by simp
  from 1 2 3 show ?thesis by simp
next
  case True
  then obtain req where req: "enrichment_update rt t1 strec = Inr (Some req)" by blast
  from enrichment_update_Some [OF req]
  obtain cid sk raw src where
    r: "req = enrichment_request rt t1 cid sk raw src"
    and all: "\<forall>t. enrichment_update rt t strec = Inr (Some (enrichment_request rt t cid sk raw src))"
    by blast
  let ?w = "FNum (calculate_weight rt raw src)"
  let ?s = "FStr (calculate_sentiment rt raw)"
  let ?r1 = "enrichment_request rt t1 cid sk raw src"
  let ?r2 = "enrichment_request rt t2 cid sk raw src"
  have p1: "process_stream_record rt t1 strec tb =
     (True, tb\<lparr>items := (items tb)((cid, sk) \<mapsto>
                (base_item tb (cid, sk))(''weight'' \<mapsto> ?w, ''sentiment'' \<mapsto> ?s,
                   ''updated_at'' \<mapsto> FStr (t1 @ ''Z''))),
             update_log := update_log tb @ [?r1]\<rparr>)"
    using all by (intro process_stream_record_update) simp
  have p2: "process_stream_record rt t2 strec tb1 =
     (True, tb1\<lparr>items := (items tb1)((cid, sk) \<mapsto>
                (base_item tb1 (cid, sk))(''weight'' \<mapsto> ?w, ''sentiment'' \<mapsto> ?s,
                   ''updated_at'' \<mapsto> FStr (t2 @ ''Z''))),
             update_log := update_log tb1 @ [?r2]\<rparr>)"
    using all by (intro process_stream_record_update) simp
  have tb1: "tb1 = tb\<lparr>items := (items tb)((cid, sk) \<mapsto>
                (base_item tb (cid, sk))(''weight'' \<mapsto> ?w, ''sentiment'' \<mapsto> ?s,
                   ''updated_at'' \<mapsto> FStr (t1 @ ''Z''))),
             update_log := update_log tb @ [?r1]\<rparr>" and ok1: "ok1 = True"
    using p1 assms(2) by simp_all
  have tb2: "tb2 = tb1\<lparr>items := (items tb1)((cid, sk) \<mapsto>
                (base_item tb1 (cid, sk))(''weight'' \<mapsto> ?w, ''sentiment'' \<mapsto> ?s,
                   ''updated_at'' \<mapsto> FStr (t2 @ ''Z''))),
             update_log := update_log tb1 @ [?r2]\<rparr>" and ok2: "ok2 = True"
    using p2 assms(3) by simp_all
  have b1: "base_item tb1 (cid, sk) = (base_item tb (cid, sk))(''weight'' \<mapsto> ?w, ''sentiment'' \<mapsto> ?s,
                   ''updated_at'' \<mapsto> FStr (t1 @ ''Z''))"
    unfolding tb1 by (simp add: base_item_def)
  have st: "stored tb2 k a = stored tb1 k a" if "a \<noteq> ''updated_at''" for k a
  proof (cases "k = (cid, sk)")
    case True
    have "stored tb2 k a = ((base_item tb1 (cid, sk))(''weight'' \<mapsto> ?w, ''sentiment'' \<mapsto> ?s,
                   ''updated_at'' \<mapsto> FStr (t2 @ ''Z''))) a"
      unfolding tb2 using True by (simp add: stored_update)
    also have "\<dots> = ((base_item tb (cid, sk))(''weight'' \<mapsto> ?w, ''sentiment'' \<mapsto> ?s,
                   ''updated_at'' \<mapsto> FStr (t1 @ ''Z''))) a"
      unfolding b1 using that by simp
    also have "\<dots> = stored tb1 k a"
      unfolding tb1 using True by (simp add: stored_update)
    finally show ?thesis .
  next
    case False
    then show ?thesis unfolding tb2 by (simp add: stored_update)
  qed
  have l1: "update_log tb1 = update_log tb @ [?r1]" unfolding tb1 by simp
  have l2: "update_log tb2 = update_log tb1 @ [?r2]" unfolding tb2 by simp
  have rr: "Key ?r2 = Key ?r1 \<and> UpdateExpression ?r2 = UpdateExpression ?r1
                \<and> ExpressionAttributeNames ?r2 = ExpressionAttributeNames ?r1
                \<and> map_of (ExpressionAttributeValues ?r2) '':weight''
                    = map_of (ExpressionAttributeValues ?r1) '':weight''
                \<and> map_of (ExpressionAttributeValues ?r2) '':sentiment''
                    = map_of (ExpressionAttributeValues ?r1) '':sentiment''"
    by (simp add: enrichment_request_def Let_def)
  from ok1 ok2 st l1 l2 rr show ?thesis by blast
qed


theorem enrichment_idempotent_witness:
  "stored (snd (process_stream_record example_runtime ''2025-11-07T17:25:00'' (example_record ''not json'')
                  (snd (process_stream_record example_runtime ''2025-11-07T17:20:00''
                          (example_record ''not json'') example_table))))
          (''celeb_001'', ''youtube#1'') ''weight''
     = stored (snd (process_stream_record example_runtime ''2025-11-07T17:20:00''
                      (example_record ''not json'') example_table))
          (''celeb_001'', ''youtube#1'') ''weight''
   \<and> stored (snd (process_stream_record example_runtime ''2025-11-07T17:20:00''
                      (example_record ''not json'') example_table))
          (''celeb_001'', ''youtube#1'') ''weight''
     = Some (FNum (5134103575202365 / 9007199254740992))"
proof -
  let ?p1 = "process_stream_record example_runtime ''2025-11-07T17:20:00''
               (example_record ''not json'') example_table"
  let ?p2 = "process_stream_record example_runtime ''2025-11-07T17:25:00''
               (example_record ''not json'') (snd ?p1)"
  have tb: "\<not> USE_AWS_COMPREHEND example_runtime" by (simp add: example_runtime_def)
  have e1: "?p1 = (fst ?p1, snd ?p1)" by (rule surjective_pairing)
  have e2: "?p2 = (fst ?p2, snd ?p2)" by (rule surjective_pairing)
  have ne: "''weight'' \<noteq> ''updated_at''" by simp
  have same: "stored (snd ?p2) (''celeb_001'', ''youtube#1'') ''weight''
                = stored (snd ?p1) (''celeb_001'', ''youtube#1'') ''weight''"
    using enrichment_idempotent [OF tb e1 e2, THEN conjunct2, THEN conjunct1, rule_format, OF ne] .
  have val: "stored (snd ?p1) (''celeb_001'', ''youtube#1'') ''weight''
                = Some (FNum (5134103575202365 / 9007199254740992))"
    by code_simp
  show ?thesis by (rule conjI [OF same val])
qed







end
